theory Spec2Isabelle
  imports Complex_Main "HOL-Library.Word"
begin

section \<open>Data model\<close>

text \<open>
  The graph types of the extension (\<^verbatim>\<open>Position\<close>, \<^verbatim>\<open>WebsiteNode\<close>, \<^verbatim>\<open>KeywordNode\<close>,
  \<^verbatim>\<open>MentionNode\<close>, the two edge types and \<^verbatim>\<open>GraphData\<close>) as records. Field names carry
  a one-letter prefix because several interfaces share \<^verbatim>\<open>id\<close>, \<^verbatim>\<open>text\<close> and
  \<^verbatim>\<open>position\<close>. An optional field (\<^verbatim>\<open>favicon?\<close>, \<^verbatim>\<open>sourceWebsiteId?\<close>,
  \<^verbatim>\<open>position?\<close>) is an \<open>option\<close>, \<open>None\<close> standing for \<^verbatim>\<open>undefined\<close>. The
  interface declares \<^verbatim>\<open>url\<close> and \<^verbatim>\<open>title\<close> of a website as strings, but
  \<^verbatim>\<open>processPageData\<close> stores there whatever the message it was sent holds, so the two
  fields are options as well. A string is the list of its code units, each below 256 (the
  Latin-1 part of UTF-16); \<^verbatim>\<open>length\<close> counts them. Text outside that range is not
  covered.
\<close>

record Position =
  pos_x :: real
  pos_y :: real

record WebsiteNode =
  w_id :: string
  w_url :: "string option"
  w_title :: "string option"
  w_favicon :: "string option"
  w_visitedAt :: nat
  w_lastPosition :: "Position option"

record KeywordNode =
  k_id :: string
  k_text :: string
  k_sourceWebsiteId :: "string option"
  k_position :: "Position option"

record MentionNode =
  m_id :: string
  m_text :: string
  m_sourceWebsiteId :: string
  m_context :: string
  m_position :: "Position option"

record Edge =
  e_id :: string
  e_source :: string
  e_target :: string

record GraphData =
  g_websites :: "WebsiteNode list"
  g_keywords :: "KeywordNode list"
  g_mentions :: "MentionNode list"
  g_websiteToKeywordEdges :: "Edge list"
  g_websiteToMentionEdges :: "Edge list"

record MentionData =
  md_text :: string
  md_context :: string

text \<open>
  The page record. It reaches the background script as the \<^verbatim>\<open>data\<close> property of a
  message and is cast to \<^verbatim>\<open>ExtractedPageData\<close> without a check, so each of its
  properties may be absent: \<open>PageMessage\<close> is the object as received. The callback that
  merges the page runs only after both arrays were spread, and \<open>ExtractedPageData\<close> is the
  object as that callback reads it: the two arrays are there, \<^verbatim>\<open>url\<close>, \<^verbatim>\<open>title\<close> and
  \<^verbatim>\<open>favicon\<close> may still be \<^verbatim>\<open>undefined\<close>. The entries of the arrays are taken as the
  interface declares them.
\<close>

record PageMessage =
  p_url :: "string option"
  p_title :: "string option"
  p_favicon :: "string option"
  p_keywords :: "string list option"
  p_mentions :: "MentionData list option"
  p_mainContent :: "string option"

record ExtractedPageData =
  d_url :: "string option"
  d_title :: "string option"
  d_favicon :: "string option"
  d_keywords :: "string list"
  d_mentions :: "MentionData list"
  d_mainContent :: "string option"

text \<open>The exception the code can raise on such values, and what a run logs.\<close>

datatype error = TypeError

datatype outcome = Caught error | Skipped | Saved

definition emptyGraphData :: GraphData where
  "emptyGraphData =
     \<lparr>g_websites = [], g_keywords = [], g_mentions = [],
      g_websiteToKeywordEdges = [], g_websiteToMentionEdges = []\<rparr>"

section \<open>Strings\<close>

text \<open>
  \<^verbatim>\<open>String.prototype.toLowerCase\<close> on the code units of the model. Below 256 the
  upper-case letters are \<^verbatim>\<open>A\<close> to \<^verbatim>\<open>Z\<close> (65 to 90) and the accented capitals 192 to 222
  without the multiplication sign 215; each has its lower-case letter 32 places further.
  Every other code unit stays.
\<close>

definition lowerChar :: "char \<Rightarrow> char" where
  "lowerChar c =
     (let n = of_char c :: nat
      in if (65 \<le> n \<and> n \<le> 90) \<or> (192 \<le> n \<and> n \<le> 222 \<and> n \<noteq> 215) then char_of (n + 32)
         else c)"

definition toLowerCase :: "string \<Rightarrow> string" where
  "toLowerCase s = map lowerChar s"

text \<open>\<^verbatim>\<open>s.startsWith(q)\<close> and \<^verbatim>\<open>s.includes(q)\<close>: \<open>q\<close> occurs in \<open>s\<close> as a contiguous run.\<close>

fun startsWith :: "string \<Rightarrow> string \<Rightarrow> bool" where
  "startsWith s [] = True"
| "startsWith [] (q # qs) = False"
| "startsWith (c # cs) (q # qs) = (c = q \<and> startsWith cs qs)"

fun includesStr :: "string \<Rightarrow> string \<Rightarrow> bool" where
  "includesStr [] q = (q = [])"
| "includesStr (c # cs) q = (startsWith (c # cs) q \<or> includesStr cs q)"

text \<open>The decimal text of a number, as a template string prints \<^verbatim>\<open>Date.now()\<close>.\<close>

definition digitChar :: "nat \<Rightarrow> char" where
  "digitChar n = ''0123456789'' ! n"

function decimal :: "nat \<Rightarrow> string" where
  "decimal n = (if n < 10 then [digitChar n] else decimal (n div 10) @ [digitChar (n mod 10)])"
  by pat_completeness auto
termination
  by (relation "measure (\<lambda>n. n)") auto

declare decimal.simps [simp del]

section \<open>The clock and the random source\<close>

text \<open>
  \<^verbatim>\<open>processPageData\<close> reads \<^verbatim>\<open>Date.now()\<close> and \<^verbatim>\<open>Math.random()\<close> each time it makes
  an id. The model numbers these reads within one run of the storage callback: \<open>now env n\<close>
  is what the \<open>n\<close>-th read of the clock returns and \<open>random env n\<close> is the text
  \<^verbatim>\<open>Math.random().toString(36).substring(2, 9)\<close> drawn with it. Nothing is assumed of either:
  the clock may stand still and two random texts may coincide.
\<close>

record Env =
  now :: "nat \<Rightarrow> nat"
  random :: "nat \<Rightarrow> string"

definition genId :: "Env \<Rightarrow> string \<Rightarrow> nat \<Rightarrow> string" where
  "genId env prefix n = prefix @ decimal (now env n) @ ''-'' @ random env n"

section \<open>processPageData: the storage callback\<close>

text \<open>
  \<^verbatim>\<open>Array.prototype.findIndex\<close>, with \<open>None\<close> for the result \<^verbatim>\<open>-1\<close>.
\<close>

fun findIndex :: "('a \<Rightarrow> bool) \<Rightarrow> 'a list \<Rightarrow> nat option" where
  "findIndex P [] = None"
| "findIndex P (a # as) = (if P a then Some 0 else map_option Suc (findIndex P as))"

text \<open>
  The website is looked up by \<^verbatim>\<open>url\<close>. An existing node keeps its id and gets the new
  title, favicon and visit time; otherwise a node with a fresh id is pushed. The result is
  the \<^verbatim>\<open>websiteId\<close> variable, the new list and the number of clock reads so far.
\<close>

definition upsertWebsite ::
  "Env \<Rightarrow> ExtractedPageData \<Rightarrow> WebsiteNode list \<Rightarrow> string \<times> WebsiteNode list \<times> nat" where
  "upsertWebsite env data ws =
     (case findIndex (\<lambda>website. w_url website = d_url data) ws of
        Some i \<Rightarrow>
          (w_id (ws ! i),
           ws[i := (ws ! i)\<lparr>w_title := d_title data, w_favicon := d_favicon data,
                            w_visitedAt := now env 0\<rparr>],
           1)
      | None \<Rightarrow>
          (let websiteId = genId env ''website-'' 0 in
           (websiteId,
            ws @ [\<lparr>w_id = websiteId, w_url = d_url data, w_title = d_title data,
                   w_favicon = d_favicon data, w_visitedAt = now env 1,
                   w_lastPosition = None\<rparr>],
            2)))"

text \<open>
  \<^verbatim>\<open>keywordPositions\<close>: the positions of the removed keywords under their lower-case text,
  a later keyword overwriting an earlier one with the same key. A key that was never written
  reads as \<^verbatim>\<open>undefined\<close>. The object is taken as a plain dictionary of its own keys: the
  two lower-case names every object inherits, \<^verbatim>\<open>constructor\<close> and \<^verbatim>\<open>__proto__\<close>, are
  keys like any other here.
\<close>

definition savePosition ::
  "KeywordNode \<Rightarrow> (string \<rightharpoonup> Position option) \<Rightarrow> (string \<rightharpoonup> Position option)" where
  "savePosition keyword keywordPositions =
     keywordPositions(toLowerCase (k_text keyword) \<mapsto> k_position keyword)"

definition savePositions :: "KeywordNode list \<Rightarrow> (string \<rightharpoonup> Position option)" where
  "savePositions existingKeywords = fold savePosition existingKeywords Map.empty"

definition lookupPosition :: "(string \<rightharpoonup> Position option) \<Rightarrow> string \<Rightarrow> Position option" where
  "lookupPosition kp key = (case kp key of None \<Rightarrow> None | Some p \<Rightarrow> p)"

text \<open>
  One turn of the loop over \<^verbatim>\<open>data.keywords\<close>. The state is the read counter, the keyword
  list and the keyword edge list.
\<close>

definition keywordStep ::
  "Env \<Rightarrow> string \<Rightarrow> (string \<rightharpoonup> Position option) \<Rightarrow> string \<Rightarrow>
   nat \<times> KeywordNode list \<times> Edge list \<Rightarrow> nat \<times> KeywordNode list \<times> Edge list" where
  "keywordStep env websiteId kp keywordText st =
     (case st of (n, ks, es) \<Rightarrow>
        if keywordText = [] \<or> length keywordText < 3 then (n, ks, es)
        else
          (let normalizedText = toLowerCase keywordText in
           case find (\<lambda>k. toLowerCase (k_text k) = normalizedText) ks of
             Some existingKeyword \<Rightarrow>
               (n + 1, ks,
                es @ [\<lparr>e_id = genId env ''edge-'' n, e_source = websiteId,
                        e_target = k_id existingKeyword\<rparr>])
           | None \<Rightarrow>
               (let keywordId = genId env ''keyword-'' n in
                (n + 2,
                 ks @ [\<lparr>k_id = keywordId, k_text = keywordText, k_sourceWebsiteId = None,
                         k_position = lookupPosition kp normalizedText\<rparr>],
                 es @ [\<lparr>e_id = genId env ''edge-'' (n + 1), e_source = websiteId,
                         e_target = keywordId\<rparr>]))))"

definition keywordLoop ::
  "Env \<Rightarrow> string \<Rightarrow> (string \<rightharpoonup> Position option) \<Rightarrow> string list \<Rightarrow>
   nat \<times> KeywordNode list \<times> Edge list \<Rightarrow> nat \<times> KeywordNode list \<times> Edge list" where
  "keywordLoop env websiteId kp kws st = fold (keywordStep env websiteId kp) kws st"

text \<open>One turn of the loop over \<^verbatim>\<open>data.mentions\<close>.\<close>

definition mentionStep ::
  "Env \<Rightarrow> string \<Rightarrow> MentionNode list \<Rightarrow> MentionData \<Rightarrow>
   nat \<times> MentionNode list \<times> Edge list \<Rightarrow> nat \<times> MentionNode list \<times> Edge list" where
  "mentionStep env websiteId existingMentions mentionData st =
     (case st of (n, ms, es) \<Rightarrow>
        if md_text mentionData = [] \<or> length (md_text mentionData) < 2
           \<or> md_context mentionData = [] then (n, ms, es)
        else
          (let existingMention =
                 find (\<lambda>m. toLowerCase (m_text m) = toLowerCase (md_text mentionData))
                   existingMentions;
               mentionId = genId env ''mention-'' n in
           (n + 2,
            ms @ [\<lparr>m_id = mentionId, m_text = md_text mentionData,
                    m_sourceWebsiteId = websiteId, m_context = md_context mentionData,
                    m_position = (case existingMention of None \<Rightarrow> None
                                  | Some m \<Rightarrow> m_position m)\<rparr>],
            es @ [\<lparr>e_id = genId env ''edge-'' (n + 1), e_source = websiteId,
                    e_target = mentionId\<rparr>])))"

definition mentionLoop ::
  "Env \<Rightarrow> string \<Rightarrow> MentionNode list \<Rightarrow> MentionData list \<Rightarrow>
   nat \<times> MentionNode list \<times> Edge list \<Rightarrow> nat \<times> MentionNode list \<times> Edge list" where
  "mentionLoop env websiteId existingMentions mds st =
     fold (mentionStep env websiteId existingMentions) mds st"

text \<open>
  The block that follows the two loops: when the graph has a website but neither a keyword
  nor a keyword edge, a keyword \<^verbatim>\<open>Test Keyword\<close> owned by the first website and an edge to
  it are pushed.
\<close>

definition testFallback ::
  "Env \<Rightarrow> nat \<Rightarrow> WebsiteNode list \<Rightarrow> KeywordNode list \<Rightarrow> Edge list \<Rightarrow>
   KeywordNode list \<times> Edge list" where
  "testFallback env n ws ks es =
     (if ws \<noteq> [] \<and> es = [] \<and> ks = [] then
        (let testKeywordId = ''keyword-test-'' @ decimal (now env n) in
         (ks @ [\<lparr>k_id = testKeywordId, k_text = ''Test Keyword'',
                  k_sourceWebsiteId = Some (w_id (hd ws)), k_position = None\<rparr>],
          es @ [\<lparr>e_id = ''edge-test-'' @ decimal (now env (n + 1)),
                  e_source = w_id (hd ws), e_target = testKeywordId\<rparr>]))
      else (ks, es))"

text \<open>
  The body of the callback of \<^verbatim>\<open>storage.get("graphData", ...)\<close>: from the stored graph to
  the graph handed to \<^verbatim>\<open>storage.set\<close>.
\<close>

definition mergePageData :: "Env \<Rightarrow> ExtractedPageData \<Rightarrow> GraphData \<Rightarrow> GraphData" where
  "mergePageData env data graphData =
     (case upsertWebsite env data (g_websites graphData) of (websiteId, ws, n0) \<Rightarrow>
      let existingKeywords =
            filter (\<lambda>keyword. k_sourceWebsiteId keyword = Some websiteId) (g_keywords graphData);
          ks0 = filter (\<lambda>keyword. k_sourceWebsiteId keyword \<noteq> Some websiteId)
                  (g_keywords graphData);
          kes0 = filter (\<lambda>edge. e_source edge \<noteq> websiteId) (g_websiteToKeywordEdges graphData);
          keywordPositions = savePositions existingKeywords
      in
      case keywordLoop env websiteId keywordPositions (d_keywords data) (n0, ks0, kes0) of
        (n1, ks1, kes1) \<Rightarrow>
      let existingMentions =
            filter (\<lambda>mention. m_sourceWebsiteId mention = websiteId) (g_mentions graphData);
          ms0 = filter (\<lambda>mention. m_sourceWebsiteId mention \<noteq> websiteId) (g_mentions graphData);
          mes0 = filter (\<lambda>edge. e_source edge \<noteq> websiteId) (g_websiteToMentionEdges graphData)
      in
      case mentionLoop env websiteId existingMentions (d_mentions data) (n1, ms0, mes0) of
        (n2, ms1, mes1) \<Rightarrow>
      case testFallback env n2 ws ks1 kes1 of (ks2, kes2) \<Rightarrow>
        \<lparr>g_websites = ws, g_keywords = ks2, g_mentions = ms1,
         g_websiteToKeywordEdges = kes2, g_websiteToMentionEdges = mes1\<rparr>)"

text \<open>The \<^verbatim>\<open>websiteId\<close> variable of a run.\<close>

definition websiteIdOf :: "Env \<Rightarrow> ExtractedPageData \<Rightarrow> GraphData \<Rightarrow> string" where
  "websiteIdOf env data graphData = fst (upsertWebsite env data (g_websites graphData))"

text \<open>
  \<^verbatim>\<open>Array.prototype.join\<close> with a blank as separator, on entries already turned into text
  (an \<^verbatim>\<open>undefined\<close> entry gives the empty text).
\<close>

fun joinBlank :: "string list \<Rightarrow> string" where
  "joinBlank [] = []"
| "joinBlank [s] = s"
| "joinBlank (s # t # ts) = s @ '' '' @ joinBlank (t # ts)"

text \<open>
  The text handed to the classifier: title, url, the first 4000 characters of the main
  content when there is one, the keywords, and a line for each mention.
\<close>

definition pageContent :: "PageMessage \<Rightarrow> string list \<Rightarrow> MentionData list \<Rightarrow> string" where
  "pageContent data keywords mentions =
     joinBlank
       ([case p_title data of None \<Rightarrow> [] | Some title \<Rightarrow> title,
         case p_url data of None \<Rightarrow> [] | Some url \<Rightarrow> url]
        @ (case p_mainContent data of
             None \<Rightarrow> []
           | Some mainContent \<Rightarrow> if mainContent = [] then [] else [take 4000 mainContent])
        @ keywords
        @ map (\<lambda>m. md_text m @ '': '' @ md_context m) mentions)"

text \<open>
  \<^verbatim>\<open>processPageData\<close> itself. The body is one \<^verbatim>\<open>try\<close> block. It first builds the text for
  the classifier, and there it spreads \<^verbatim>\<open>data.keywords\<close> and calls \<^verbatim>\<open>data.mentions.map\<close>:
  when either property is absent this throws a \<^verbatim>\<open>TypeError\<close>, which the \<^verbatim>\<open>catch\<close> logs,
  and the store is left as it is. \<^verbatim>\<open>data.title\<close> and \<^verbatim>\<open>data.url\<close> are only read, and
  nothing tests them. The function then returns early, again leaving the store as it is,
  when no content preferences or no API key are set, or when the classifier rejects the
  text; \<open>isContentRelevant\<close> is the answer of the remote call
  \<^verbatim>\<open>isContentRelevantToUserPreferences\<close>, which catches its own errors and always answers.
  Otherwise the callback merges the page into the stored graph, or into the empty graph
  when nothing is stored. The result is what the run logs and the content of the key
  \<^verbatim>\<open>graphData\<close> afterwards; a write that fails is only logged by the code, and the model
  takes the write to succeed.
\<close>

definition processPageData ::
  "string \<Rightarrow> string \<Rightarrow> (string \<Rightarrow> bool) \<Rightarrow> Env \<Rightarrow> PageMessage \<Rightarrow> GraphData option \<Rightarrow>
   outcome \<times> GraphData option" where
  "processPageData preferences geminiApiKey isContentRelevant env data stored =
     (case p_keywords data of
        None \<Rightarrow> (Caught TypeError, stored)
      | Some keywords \<Rightarrow>
          (case p_mentions data of
             None \<Rightarrow> (Caught TypeError, stored)
           | Some mentions \<Rightarrow>
               if preferences = [] \<or> geminiApiKey = [] then (Skipped, stored)
               else if \<not> isContentRelevant (pageContent data keywords mentions)
               then (Skipped, stored)
               else
                 (Saved,
                  Some (mergePageData env
                          \<lparr>d_url = p_url data, d_title = p_title data,
                           d_favicon = p_favicon data, d_keywords = keywords,
                           d_mentions = mentions, d_mainContent = p_mainContent data\<rparr>
                          (case stored of
                             None \<Rightarrow> emptyGraphData
                           | Some graphData \<Rightarrow> graphData)))))"

text \<open>A sequence of runs, each with its own clock and random source.\<close>

definition mergeAll :: "(Env \<times> ExtractedPageData) list \<Rightarrow> GraphData \<Rightarrow> GraphData" where
  "mergeAll steps graphData = fold (\<lambda>(env, data). mergePageData env data) steps graphData"

text \<open>
  Names for what a run does, used to state its properties: the mentions the second loop
  accepts, the node it builds for one of them, the node the first loop builds for a new
  keyword, and the condition under which the block after the loops pushes its test keyword,
  written over the inputs of the run.
\<close>

abbreviation kwKey :: "KeywordNode \<Rightarrow> string" where
  "kwKey k \<equiv> toLowerCase (k_text k)"

definition validMention :: "MentionData \<Rightarrow> bool" where
  "validMention md \<longleftrightarrow> 2 \<le> length (md_text md) \<and> md_context md \<noteq> []"

definition newMentionOk :: "string \<Rightarrow> MentionNode list \<Rightarrow> MentionNode \<Rightarrow> MentionData \<Rightarrow> bool" where
  "newMentionOk wid ex m md \<longleftrightarrow>
     m_text m = md_text md \<and> m_context m = md_context md \<and> m_sourceWebsiteId m = wid \<and>
     m_position m =
       (case find (\<lambda>e. toLowerCase (m_text e) = toLowerCase (md_text md)) ex of
          None \<Rightarrow> None | Some e \<Rightarrow> m_position e)"

definition newKeywordOk ::
  "(string \<rightharpoonup> Position option) \<Rightarrow> string list \<Rightarrow> KeywordNode \<Rightarrow> bool" where
  "newKeywordOk kp kws k \<longleftrightarrow>
     k_sourceWebsiteId k = None \<and> 3 \<le> length (k_text k) \<and> k_text k \<in> set kws \<and>
     k_position k = lookupPosition kp (toLowerCase (k_text k))"

definition fallbackFires :: "string \<Rightarrow> ExtractedPageData \<Rightarrow> GraphData \<Rightarrow> bool" where
  "fallbackFires wid data graphData \<longleftrightarrow>
     filter (\<lambda>t. 3 \<le> length t) (d_keywords data) = [] \<and>
     filter (\<lambda>k. k_sourceWebsiteId k \<noteq> Some wid) (g_keywords graphData) = [] \<and>
     filter (\<lambda>e. e_source e \<noteq> wid) (g_websiteToKeywordEdges graphData) = []"

text \<open>
  What a run makes of a graph, in one predicate: the website list, the nodes and edges the
  two loops append, and what the block after the loops appends.
\<close>

definition mergeParts ::
  "Env \<Rightarrow> ExtractedPageData \<Rightarrow> GraphData \<Rightarrow> WebsiteNode list \<Rightarrow> nat \<Rightarrow> KeywordNode list \<Rightarrow>
   Edge list \<Rightarrow> KeywordNode list \<Rightarrow> Edge list \<Rightarrow> MentionNode list \<Rightarrow> Edge list \<Rightarrow> bool" where
  "mergeParts env data g ws n0 nk ne tk te nm nme \<longleftrightarrow>
     (upsertWebsite env data (g_websites g) = (websiteIdOf env data g, ws, n0)) \<and>
     (g_websites (mergePageData env data g) = ws) \<and>
     (g_keywords (mergePageData env data g) =
       filter (\<lambda>k. k_sourceWebsiteId k \<noteq> Some (websiteIdOf env data g)) (g_keywords g) @ nk @ tk) \<and>
     (g_mentions (mergePageData env data g) =
       filter (\<lambda>m. m_sourceWebsiteId m \<noteq> websiteIdOf env data g) (g_mentions g) @ nm) \<and>
     (g_websiteToKeywordEdges (mergePageData env data g) =
       filter (\<lambda>e. e_source e \<noteq> websiteIdOf env data g) (g_websiteToKeywordEdges g) @ ne @ te) \<and>
     (g_websiteToMentionEdges (mergePageData env data g) =
       filter (\<lambda>e. e_source e \<noteq> websiteIdOf env data g) (g_websiteToMentionEdges g) @ nme) \<and>
     (\<forall>k \<in> set nk.
        newKeywordOk
          (savePositions
             (filter (\<lambda>k. k_sourceWebsiteId k = Some (websiteIdOf env data g)) (g_keywords g)))
          (d_keywords data) k) \<and>
     (distinct (map kwKey
         (filter (\<lambda>k. k_sourceWebsiteId k \<noteq> Some (websiteIdOf env data g)) (g_keywords g))) \<longrightarrow>
      distinct (map kwKey
         (filter (\<lambda>k. k_sourceWebsiteId k \<noteq> Some (websiteIdOf env data g)) (g_keywords g) @ nk))) \<and>
     (list_all2 (\<lambda>e t. e_source e = websiteIdOf env data g \<and>
                 (\<exists>k \<in> set (filter (\<lambda>k. k_sourceWebsiteId k \<noteq> Some (websiteIdOf env data g))
                               (g_keywords g) @ nk).
                    k_id k = e_target e \<and> kwKey k = toLowerCase t))
       ne (filter (\<lambda>t. 3 \<le> length t) (d_keywords data))) \<and>
     (if fallbackFires (websiteIdOf env data g) data g then
        nk = [] \<and> ne = [] \<and>
        (\<exists>k e. tk = [k] \<and> te = [e] \<and> k_text k = ''Test Keyword'' \<and>
           k_sourceWebsiteId k = Some (w_id (hd ws)) \<and> k_position k = None \<and>
           e_source e = w_id (hd ws) \<and> e_target e = k_id k)
      else tk = [] \<and> te = []) \<and>
     (list_all2
       (newMentionOk (websiteIdOf env data g)
          (filter (\<lambda>m. m_sourceWebsiteId m = websiteIdOf env data g) (g_mentions g)))
       nm (filter validMention (d_mentions data))) \<and>
     (list_all2 (\<lambda>e m. e_source e = websiteIdOf env data g \<and> e_target e = m_id m) nme nm)"

section \<open>The graph store\<close>

text \<open>
  The operations of \<^verbatim>\<open>useGraphStore\<close> on the five lists of the state: the three position
  updates, the reset and the search. The store reads the graph that \<^verbatim>\<open>processPageData\<close>
  wrote (\<^verbatim>\<open>loadFromChromeStorage\<close>) and writes its state back under the same key.
\<close>

definition updateWebsitePosition :: "string \<Rightarrow> Position \<Rightarrow> GraphData \<Rightarrow> GraphData" where
  "updateWebsitePosition i position state =
     state\<lparr>g_websites :=
       map (\<lambda>website. if w_id website = i then website\<lparr>w_lastPosition := Some position\<rparr>
                        else website) (g_websites state)\<rparr>"

definition updateKeywordPosition :: "string \<Rightarrow> Position \<Rightarrow> GraphData \<Rightarrow> GraphData" where
  "updateKeywordPosition i position state =
     state\<lparr>g_keywords :=
       map (\<lambda>keyword. if k_id keyword = i then keyword\<lparr>k_position := Some position\<rparr>
                        else keyword) (g_keywords state)\<rparr>"

definition updateMentionPosition :: "string \<Rightarrow> Position \<Rightarrow> GraphData \<Rightarrow> GraphData" where
  "updateMentionPosition i position state =
     state\<lparr>g_mentions :=
       map (\<lambda>mention. if m_id mention = i then mention\<lparr>m_position := Some position\<rparr>
                        else mention) (g_mentions state)\<rparr>"

definition resetGraph :: "GraphData \<Rightarrow> GraphData" where
  "resetGraph state =
     state\<lparr>g_websites := [], g_keywords := [], g_mentions := [],
           g_websiteToKeywordEdges := [], g_websiteToMentionEdges := []\<rparr>"

record SearchResults =
  sr_websites :: "WebsiteNode list"
  sr_keywords :: "KeywordNode list"
  sr_mentions :: "MentionNode list"

text \<open>
  \<^verbatim>\<open>s.toLowerCase().includes(q)\<close> on a property that may be \<^verbatim>\<open>undefined\<close>: the call of
  \<^verbatim>\<open>toLowerCase\<close> on \<^verbatim>\<open>undefined\<close> throws. The test of one website reads the title only
  when the id is not among the collected ids, and the url only when the title does not
  match. \<open>filterE\<close> is \<^verbatim>\<open>Array.prototype.filter\<close> with a test that may throw.
\<close>

definition lowerIncludes :: "string option \<Rightarrow> string \<Rightarrow> error + bool" where
  "lowerIncludes s q =
     (case s of None \<Rightarrow> Inl TypeError | Some t \<Rightarrow> Inr (includesStr (toLowerCase t) q))"

definition websiteMatches :: "string option set \<Rightarrow> string \<Rightarrow> WebsiteNode \<Rightarrow> error + bool" where
  "websiteMatches websiteIds lowercaseKeyword w =
     (if Some (w_id w) \<in> websiteIds then Inr True
      else case lowerIncludes (w_title w) lowercaseKeyword of
             Inl e \<Rightarrow> Inl e
           | Inr b \<Rightarrow> if b then Inr True else lowerIncludes (w_url w) lowercaseKeyword)"

fun filterE :: "('a \<Rightarrow> error + bool) \<Rightarrow> 'a list \<Rightarrow> error + 'a list" where
  "filterE P [] = Inr []"
| "filterE P (a # as) =
     (case P a of
        Inl e \<Rightarrow> Inl e
      | Inr b \<Rightarrow>
          (case filterE P as of
             Inl e \<Rightarrow> Inl e
           | Inr rest \<Rightarrow> Inr (if b then a # rest else rest)))"

definition searchByKeyword :: "string \<Rightarrow> GraphData \<Rightarrow> error + SearchResults" where
  "searchByKeyword keyword state =
     (let lowercaseKeyword = toLowerCase keyword;
          matchingKeywords =
            filter (\<lambda>k. includesStr (toLowerCase (k_text k)) lowercaseKeyword)
              (g_keywords state);
          matchingMentions =
            filter (\<lambda>m. includesStr (toLowerCase (m_text m)) lowercaseKeyword
                        \<or> includesStr (toLowerCase (m_context m)) lowercaseKeyword)
              (g_mentions state);
          websiteIds =
            set (map k_sourceWebsiteId matchingKeywords
                 @ map (\<lambda>m. Some (m_sourceWebsiteId m)) matchingMentions)
      in case filterE (websiteMatches websiteIds lowercaseKeyword) (g_websites state) of
           Inl e \<Rightarrow> Inl e
         | Inr matchingWebsites \<Rightarrow>
             Inr \<lparr>sr_websites = matchingWebsites, sr_keywords = matchingKeywords,
                  sr_mentions = matchingMentions\<rparr>)"

text \<open>
  The graphs the extension can hold: the empty graph, and whatever a merge, a position
  update or a reset makes of such a graph.
\<close>

inductive reachable :: "GraphData \<Rightarrow> bool" where
  init: "reachable emptyGraphData"
| merge: "reachable g \<Longrightarrow> reachable (mergePageData env data g)"
| websitePosition: "reachable g \<Longrightarrow> reachable (updateWebsitePosition i p g)"
| keywordPosition: "reachable g \<Longrightarrow> reachable (updateKeywordPosition i p g)"
| mentionPosition: "reachable g \<Longrightarrow> reachable (updateMentionPosition i p g)"
| reset: "reachable g \<Longrightarrow> reachable (resetGraph g)"

section \<open>The layout hook\<close>























section \<open>Example inputs\<close>

definition envAt :: "nat \<Rightarrow> Env" where
  "envAt t = \<lparr>now = (\<lambda>n. t + n), random = (\<lambda>n. ''r'')\<rparr>"

definition page :: "string \<Rightarrow> string \<Rightarrow> string list \<Rightarrow> MentionData list \<Rightarrow> ExtractedPageData" where
  "page u t kws mds =
     \<lparr>d_url = Some u, d_title = Some t, d_favicon = Some [], d_keywords = kws,
      d_mentions = mds, d_mainContent = None\<rparr>"

text \<open>A classifier that accepts every page.\<close>

definition acceptAll :: "string \<Rightarrow> bool" where
  "acceptAll content = True"

text \<open>A message with the given url, title, keywords and mentions, each possibly absent.\<close>

definition message ::
  "string option \<Rightarrow> string option \<Rightarrow> string list option \<Rightarrow> MentionData list option \<Rightarrow>
   PageMessage" where
  "message u t kws mds =
     \<lparr>p_url = u, p_title = t, p_favicon = Some [], p_keywords = kws, p_mentions = mds,
      p_mainContent = None\<rparr>"



section \<open>Properties of the merge\<close>

lemma length_toLowerCase [simp]: "length (toLowerCase s) = length s"
  by (simp add: toLowerCase_def)

text \<open>
  The folding at letters with and without accent: \<^verbatim>\<open>CAF\<close> followed by the capital E
  with acute accent (code unit 201) has the lower-case form of \<^verbatim>\<open>Caf\<close> followed by the
  small one (233); the multiplication sign (215) and the sharp s (223) stay.
\<close>

lemma toLowerCase_accented:
  "toLowerCase [CHR ''C'', CHR ''A'', CHR ''F'', CHR 0xC9] = [CHR ''c'', CHR ''a'', CHR ''f'', CHR 0xE9]
   \<and> toLowerCase [CHR ''C'', CHR ''a'', CHR ''f'', CHR 0xE9] = [CHR ''c'', CHR ''a'', CHR ''f'', CHR 0xE9]
   \<and> toLowerCase [CHR 0xD7, CHR 0xDF] = [CHR 0xD7, CHR 0xDF]"
  by code_simp

lemma keywordStep_skip:
  "length t < 3 \<Longrightarrow> keywordStep env wid kp t st = st"
  by (auto simp: keywordStep_def split: prod.splits)

lemma keywordStep_found:
  "3 \<le> length t \<Longrightarrow> find (\<lambda>k. toLowerCase (k_text k) = toLowerCase t) ks = Some x \<Longrightarrow>
   keywordStep env wid kp t (n, ks, es) =
     (n + 1, ks, es @ [\<lparr>e_id = genId env ''edge-'' n, e_source = wid, e_target = k_id x\<rparr>])"
  by (auto simp: keywordStep_def)

lemma keywordStep_new:
  "3 \<le> length t \<Longrightarrow> find (\<lambda>k. toLowerCase (k_text k) = toLowerCase t) ks = None \<Longrightarrow>
   keywordStep env wid kp t (n, ks, es) =
     (n + 2,
      ks @ [\<lparr>k_id = genId env ''keyword-'' n, k_text = t, k_sourceWebsiteId = None,
              k_position = lookupPosition kp (toLowerCase t)\<rparr>],
      es @ [\<lparr>e_id = genId env ''edge-'' (n + 1), e_source = wid,
              e_target = genId env ''keyword-'' n\<rparr>])"
  by (auto simp: keywordStep_def Let_def)

lemma keywordLoop_Nil [simp]: "keywordLoop env wid kp [] st = st"
  by (simp add: keywordLoop_def)

lemma keywordLoop_Cons [simp]:
  "keywordLoop env wid kp (t # ts) st = keywordLoop env wid kp ts (keywordStep env wid kp t st)"
  by (simp add: keywordLoop_def)

lemma keywordStep_shape:
  "\<exists>n' nk ne. keywordStep env wid kp t (n, ks, es) = (n', ks @ nk, es @ ne) \<and>
     (\<forall>k \<in> set nk. newKeywordOk kp [t] k \<and> toLowerCase (k_text k) \<notin> (\<lambda>k. toLowerCase (k_text k)) ` set ks) \<and>
     length nk \<le> 1 \<and>
     (if 3 \<le> length t then
        (\<exists>e. ne = [e] \<and> e_source e = wid \<and>
           (\<exists>k \<in> set (ks @ nk). k_id k = e_target e \<and> toLowerCase (k_text k) = toLowerCase t))
      else ne = [] \<and> nk = [])"
proof (cases "3 \<le> length t")
  case False
  then show ?thesis by (simp add: keywordStep_skip)
next
  case True
  show ?thesis
  proof (cases "find (\<lambda>k. toLowerCase (k_text k) = toLowerCase t) ks")
    case None
    then have "toLowerCase t \<notin> (\<lambda>k. toLowerCase (k_text k)) ` set ks"
      by (auto simp: find_None_iff)
    with True None show ?thesis
      by (simp add: keywordStep_new newKeywordOk_def)
  next
    case (Some x)
    then have "x \<in> set ks" "toLowerCase (k_text x) = toLowerCase t"
      by (auto simp: find_Some_iff)
    with True Some show ?thesis
      by (auto simp: keywordStep_found)
  qed
qed

lemma newKeywordOk_mono: "newKeywordOk kp A k \<Longrightarrow> set A \<subseteq> set B \<Longrightarrow> newKeywordOk kp B k"
  by (auto simp: newKeywordOk_def)

lemma keywordLoop_shape:
  "\<exists>n' nk ne. keywordLoop env wid kp kws (n, ks, es) = (n', ks @ nk, es @ ne) \<and>
     (\<forall>k \<in> set nk. newKeywordOk kp kws k) \<and>
     (distinct (map (\<lambda>k. toLowerCase (k_text k)) ks) \<longrightarrow>
        distinct (map (\<lambda>k. toLowerCase (k_text k)) (ks @ nk))) \<and>
     list_all2 (\<lambda>e t. e_source e = wid \<and>
                 (\<exists>k \<in> set (ks @ nk). k_id k = e_target e \<and> toLowerCase (k_text k) = toLowerCase t))
       ne (filter (\<lambda>t. 3 \<le> length t) kws)"
proof (induction kws arbitrary: n ks es)
  case Nil
  show ?case by simp
next
  case (Cons t ts)
  obtain n1 nk1 ne1 where s: "keywordStep env wid kp t (n, ks, es) = (n1, ks @ nk1, es @ ne1)"
    and nk1: "\<forall>k \<in> set nk1. newKeywordOk kp [t] k \<and> toLowerCase (k_text k) \<notin> (\<lambda>k. toLowerCase (k_text k)) ` set ks"
    and len1: "length nk1 \<le> 1"
    and ne1: "if 3 \<le> length t then
        (\<exists>e. ne1 = [e] \<and> e_source e = wid \<and>
           (\<exists>k \<in> set (ks @ nk1). k_id k = e_target e \<and> toLowerCase (k_text k) = toLowerCase t))
      else ne1 = [] \<and> nk1 = []"
    using keywordStep_shape [of env wid kp t n ks es] by blast
  obtain n2 nk2 ne2 where l: "keywordLoop env wid kp ts (n1, ks @ nk1, es @ ne1) = (n2, (ks @ nk1) @ nk2, (es @ ne1) @ ne2)"
    and nk2: "\<forall>k \<in> set nk2. newKeywordOk kp ts k"
    and d2: "distinct (map (\<lambda>k. toLowerCase (k_text k)) (ks @ nk1)) \<longrightarrow>
        distinct (map (\<lambda>k. toLowerCase (k_text k)) ((ks @ nk1) @ nk2))"
    and ne2: "list_all2 (\<lambda>e t. e_source e = wid \<and>
                 (\<exists>k \<in> set ((ks @ nk1) @ nk2). k_id k = e_target e \<and> toLowerCase (k_text k) = toLowerCase t))
       ne2 (filter (\<lambda>t. 3 \<le> length t) ts)"
    using Cons.IH [of n1 "ks @ nk1" "es @ ne1"] by blast
  have eq: "keywordLoop env wid kp (t # ts) (n, ks, es) = (n2, ks @ (nk1 @ nk2), es @ (ne1 @ ne2))"
    using s l by simp
  have a: "\<forall>k \<in> set (nk1 @ nk2). newKeywordOk kp (t # ts) k"
    using nk1 nk2 by (auto intro: newKeywordOk_mono)
  have d1: "distinct (map (\<lambda>k. toLowerCase (k_text k)) ks) \<Longrightarrow> distinct (map (\<lambda>k. toLowerCase (k_text k)) (ks @ nk1))"
    using nk1 len1 by (cases nk1) auto
  have b: "distinct (map (\<lambda>k. toLowerCase (k_text k)) ks) \<longrightarrow>
        distinct (map (\<lambda>k. toLowerCase (k_text k)) (ks @ (nk1 @ nk2)))"
    using d1 d2 by simp
  have c: "list_all2 (\<lambda>e t. e_source e = wid \<and>
                 (\<exists>k \<in> set (ks @ (nk1 @ nk2)). k_id k = e_target e \<and> toLowerCase (k_text k) = toLowerCase t))
       (ne1 @ ne2) (filter (\<lambda>t. 3 \<le> length t) (t # ts))"
  proof (cases "3 \<le> length t")
    case True
    then obtain e where e: "ne1 = [e]" "e_source e = wid"
      "\<exists>k \<in> set (ks @ nk1). k_id k = e_target e \<and> toLowerCase (k_text k) = toLowerCase t"
      using ne1 by auto
    then have "\<exists>k \<in> set (ks @ (nk1 @ nk2)). k_id k = e_target e \<and> toLowerCase (k_text k) = toLowerCase t"
      by auto
    with e True ne2 show ?thesis by simp
  next
    case False
    with ne1 ne2 show ?thesis by simp
  qed
  from eq a b c show ?case by blast
qed


lemma mentionLoop_Nil [simp]: "mentionLoop env wid ex [] st = st"
  by (simp add: mentionLoop_def)

lemma mentionLoop_Cons [simp]:
  "mentionLoop env wid ex (md # mds) st = mentionLoop env wid ex mds (mentionStep env wid ex md st)"
  by (simp add: mentionLoop_def)

lemma mentionStep_skip:
  "\<not> validMention md \<Longrightarrow> mentionStep env wid ex md st = st"
  by (auto simp: mentionStep_def validMention_def split: prod.splits)

lemma mentionStep_new:
  "validMention md \<Longrightarrow>
   \<exists>m e. mentionStep env wid ex md (n, ms, es) = (n + 2, ms @ [m], es @ [e]) \<and>
     newMentionOk wid ex m md \<and> e_source e = wid \<and> e_target e = m_id m \<and>
     m_id m = genId env ''mention-'' n"
  by (auto simp: mentionStep_def validMention_def newMentionOk_def Let_def)

lemma mentionLoop_shape:
  "\<exists>n' nm ne. mentionLoop env wid ex mds (n, ms, es) = (n', ms @ nm, es @ ne) \<and>
     list_all2 (newMentionOk wid ex) nm (filter validMention mds) \<and>
     list_all2 (\<lambda>e m. e_source e = wid \<and> e_target e = m_id m) ne nm"
proof (induction mds arbitrary: n ms es)
  case Nil
  show ?case by simp
next
  case (Cons md mds)
  show ?case
  proof (cases "validMention md")
    case False
    with Cons.IH [of n ms es] show ?thesis by (simp add: mentionStep_skip)
  next
    case True
    then obtain m e where s: "mentionStep env wid ex md (n, ms, es) = (n + 2, ms @ [m], es @ [e])"
      and m: "newMentionOk wid ex m md" and e: "e_source e = wid" "e_target e = m_id m"
      using mentionStep_new [of md env wid ex n ms es] by blast
    obtain n2 nm2 ne2 where l: "mentionLoop env wid ex mds (n + 2, ms @ [m], es @ [e]) = (n2, (ms @ [m]) @ nm2, (es @ [e]) @ ne2)"
      and nm2: "list_all2 (newMentionOk wid ex) nm2 (filter validMention mds)"
      and ne2: "list_all2 (\<lambda>e m. e_source e = wid \<and> e_target e = m_id m) ne2 nm2"
      using Cons.IH [of "n + 2" "ms @ [m]" "es @ [e]"] by blast
    have "mentionLoop env wid ex (md # mds) (n, ms, es) = (n2, ms @ (m # nm2), es @ (e # ne2))"
      using s l by simp
    moreover have "list_all2 (newMentionOk wid ex) (m # nm2) (filter validMention (md # mds))"
      using True m nm2 by simp
    moreover have "list_all2 (\<lambda>e m. e_source e = wid \<and> e_target e = m_id m) (e # ne2) (m # nm2)"
      using e ne2 by simp
    ultimately show ?thesis by blast
  qed
qed

subsection \<open>The website upsert\<close>

lemma findIndex_None: "findIndex P xs = None \<longleftrightarrow> (\<forall>x \<in> set xs. \<not> P x)"
  by (induction xs) auto

lemma findIndex_Some: "findIndex P xs = Some i \<Longrightarrow> i < length xs \<and> P (xs ! i)"
  by (induction xs arbitrary: i) (auto split: if_splits)

lemma upsertWebsite_existing:
  assumes "findIndex (\<lambda>website. w_url website = d_url data) ws = Some i"
  shows "upsertWebsite env data ws =
     (w_id (ws ! i),
      ws[i := (ws ! i)\<lparr>w_title := d_title data, w_favicon := d_favicon data,
                       w_visitedAt := now env 0\<rparr>], 1)"
  using assms by (simp add: upsertWebsite_def)

lemma upsertWebsite_fresh:
  assumes "findIndex (\<lambda>website. w_url website = d_url data) ws = None"
  shows "upsertWebsite env data ws =
     (genId env ''website-'' 0,
      ws @ [\<lparr>w_id = genId env ''website-'' 0, w_url = d_url data, w_title = d_title data,
              w_favicon = d_favicon data, w_visitedAt = now env 1,
              w_lastPosition = None\<rparr>], 2)"
  using assms by (simp add: upsertWebsite_def Let_def)

lemma upsertWebsite_props:
  assumes "upsertWebsite env data ws = (wid, ws', n)"
  shows "length ws \<le> length ws'"
    and "\<forall>i < length ws. w_id (ws' ! i) = w_id (ws ! i) \<and> w_url (ws' ! i) = w_url (ws ! i)
            \<and> w_lastPosition (ws' ! i) = w_lastPosition (ws ! i)"
    and "\<exists>w \<in> set ws'. w_id w = wid \<and> w_url w = d_url data \<and> w_title w = d_title data"
    and "(\<exists>w \<in> set ws. w_url w = d_url data) \<longrightarrow> length ws' = length ws"
proof -
  show "length ws \<le> length ws'"
    using assms by (auto simp: upsertWebsite_def Let_def split: option.splits)
  show "\<forall>i < length ws. w_id (ws' ! i) = w_id (ws ! i) \<and> w_url (ws' ! i) = w_url (ws ! i)
            \<and> w_lastPosition (ws' ! i) = w_lastPosition (ws ! i)"
  proof (cases "findIndex (\<lambda>website. w_url website = d_url data) ws")
    case None
    with assms show ?thesis by (auto simp: upsertWebsite_fresh nth_append)
  next
    case (Some j)
    then have "j < length ws" using findIndex_Some [of _ ws j] by auto
    with assms Some show ?thesis
      by (auto simp: upsertWebsite_existing nth_list_update)
  qed
  show "\<exists>w \<in> set ws'. w_id w = wid \<and> w_url w = d_url data \<and> w_title w = d_title data"
  proof (cases "findIndex (\<lambda>website. w_url website = d_url data) ws")
    case None
    with assms show ?thesis by (auto simp: upsertWebsite_fresh)
  next
    case (Some i)
    then have i: "i < length ws" "w_url (ws ! i) = d_url data"
      using findIndex_Some [of _ ws i] by auto
    let ?w = "(ws ! i)\<lparr>w_title := d_title data, w_favicon := d_favicon data,
                       w_visitedAt := now env 0\<rparr>"
    have "?w \<in> set ws'"
      using assms Some i by (auto simp: upsertWebsite_existing intro: set_update_memI)
    moreover have "w_id ?w = wid"
      using assms Some by (simp add: upsertWebsite_existing)
    ultimately show ?thesis using i by (intro bexI [of _ ?w]) auto
  qed
  show "(\<exists>w \<in> set ws. w_url w = d_url data) \<longrightarrow> length ws' = length ws"
    using assms by (auto simp: upsertWebsite_def Let_def findIndex_None split: option.splits)
qed


subsection \<open>The whole merge\<close>

lemma testFallback_shape:
  "\<exists>tk te. testFallback env n ws ks es = (ks @ tk, es @ te) \<and>
     (if ws \<noteq> [] \<and> es = [] \<and> ks = [] then
        (\<exists>k e. tk = [k] \<and> te = [e] \<and> k_text k = ''Test Keyword'' \<and>
           k_sourceWebsiteId k = Some (w_id (hd ws)) \<and> k_position k = None \<and>
           e_source e = w_id (hd ws) \<and> e_target e = k_id k)
      else tk = [] \<and> te = [])"
  by (simp add: testFallback_def Let_def)

lemma mergePageData_shape:
  "\<exists>ws n0 nk ne tk te nm nme.
     upsertWebsite env data (g_websites g) = (websiteIdOf env data g, ws, n0) \<and>
     g_websites (mergePageData env data g) = ws \<and>
     g_keywords (mergePageData env data g) =
       filter (\<lambda>k. k_sourceWebsiteId k \<noteq> Some (websiteIdOf env data g)) (g_keywords g) @ nk @ tk \<and>
     g_mentions (mergePageData env data g) =
       filter (\<lambda>m. m_sourceWebsiteId m \<noteq> websiteIdOf env data g) (g_mentions g) @ nm \<and>
     g_websiteToKeywordEdges (mergePageData env data g) =
       filter (\<lambda>e. e_source e \<noteq> websiteIdOf env data g) (g_websiteToKeywordEdges g) @ ne @ te \<and>
     g_websiteToMentionEdges (mergePageData env data g) =
       filter (\<lambda>e. e_source e \<noteq> websiteIdOf env data g) (g_websiteToMentionEdges g) @ nme \<and>
     (\<forall>k \<in> set nk.
        newKeywordOk
          (savePositions
             (filter (\<lambda>k. k_sourceWebsiteId k = Some (websiteIdOf env data g)) (g_keywords g)))
          (d_keywords data) k) \<and>
     (distinct (map kwKey
         (filter (\<lambda>k. k_sourceWebsiteId k \<noteq> Some (websiteIdOf env data g)) (g_keywords g))) \<longrightarrow>
      distinct (map kwKey
         (filter (\<lambda>k. k_sourceWebsiteId k \<noteq> Some (websiteIdOf env data g)) (g_keywords g) @ nk))) \<and>
     list_all2 (\<lambda>e t. e_source e = websiteIdOf env data g \<and>
                 (\<exists>k \<in> set (filter (\<lambda>k. k_sourceWebsiteId k \<noteq> Some (websiteIdOf env data g))
                               (g_keywords g) @ nk).
                    k_id k = e_target e \<and> kwKey k = toLowerCase t))
       ne (filter (\<lambda>t. 3 \<le> length t) (d_keywords data)) \<and>
     (if fallbackFires (websiteIdOf env data g) data g then
        nk = [] \<and> ne = [] \<and>
        (\<exists>k e. tk = [k] \<and> te = [e] \<and> k_text k = ''Test Keyword'' \<and>
           k_sourceWebsiteId k = Some (w_id (hd ws)) \<and> k_position k = None \<and>
           e_source e = w_id (hd ws) \<and> e_target e = k_id k)
      else tk = [] \<and> te = []) \<and>
     list_all2
       (newMentionOk (websiteIdOf env data g)
          (filter (\<lambda>m. m_sourceWebsiteId m = websiteIdOf env data g) (g_mentions g)))
       nm (filter validMention (d_mentions data)) \<and>
     list_all2 (\<lambda>e m. e_source e = websiteIdOf env data g \<and> e_target e = m_id m) nme nm"
proof -
  obtain wid ws n0 where u: "upsertWebsite env data (g_websites g) = (wid, ws, n0)"
    by (cases "upsertWebsite env data (g_websites g)") auto
  then have w: "websiteIdOf env data g = wid"
    by (simp add: websiteIdOf_def)
  let ?ks0 = "filter (\<lambda>k. k_sourceWebsiteId k \<noteq> Some wid) (g_keywords g)"
  let ?kes0 = "filter (\<lambda>e. e_source e \<noteq> wid) (g_websiteToKeywordEdges g)"
  let ?kp = "savePositions (filter (\<lambda>k. k_sourceWebsiteId k = Some wid) (g_keywords g))"
  let ?ex = "filter (\<lambda>m. m_sourceWebsiteId m = wid) (g_mentions g)"
  let ?ms0 = "filter (\<lambda>m. m_sourceWebsiteId m \<noteq> wid) (g_mentions g)"
  let ?mes0 = "filter (\<lambda>e. e_source e \<noteq> wid) (g_websiteToMentionEdges g)"
  have wsne: "ws \<noteq> []"
    using upsertWebsite_props(3) [OF u] by auto
  obtain n1 nk ne where kl: "keywordLoop env wid ?kp (d_keywords data) (n0, ?ks0, ?kes0) = (n1, ?ks0 @ nk, ?kes0 @ ne)"
    and nk: "\<forall>k \<in> set nk. newKeywordOk ?kp (d_keywords data) k"
    and dist: "distinct (map kwKey ?ks0) \<longrightarrow> distinct (map kwKey (?ks0 @ nk))"
    and ne: "list_all2 (\<lambda>e t. e_source e = wid \<and>
                 (\<exists>k \<in> set (?ks0 @ nk). k_id k = e_target e \<and> kwKey k = toLowerCase t))
       ne (filter (\<lambda>t. 3 \<le> length t) (d_keywords data))"
    using keywordLoop_shape [of env wid ?kp "d_keywords data" n0 ?ks0 ?kes0] by blast
  obtain n2 nm nme where ml: "mentionLoop env wid ?ex (d_mentions data) (n1, ?ms0, ?mes0) = (n2, ?ms0 @ nm, ?mes0 @ nme)"
    and nm: "list_all2 (newMentionOk wid ?ex) nm (filter validMention (d_mentions data))"
    and nme: "list_all2 (\<lambda>e m. e_source e = wid \<and> e_target e = m_id m) nme nm"
    using mentionLoop_shape [of env wid ?ex "d_mentions data" n1 ?ms0 ?mes0] by blast
  obtain tk te where tf: "testFallback env n2 ws (?ks0 @ nk) (?kes0 @ ne) = ((?ks0 @ nk) @ tk, (?kes0 @ ne) @ te)"
    and tft: "if ws \<noteq> [] \<and> ?kes0 @ ne = [] \<and> ?ks0 @ nk = [] then
        (\<exists>k e. tk = [k] \<and> te = [e] \<and> k_text k = ''Test Keyword'' \<and>
           k_sourceWebsiteId k = Some (w_id (hd ws)) \<and> k_position k = None \<and>
           e_source e = w_id (hd ws) \<and> e_target e = k_id k)
      else tk = [] \<and> te = []"
    using testFallback_shape [of env n2 ws "?ks0 @ nk" "?kes0 @ ne"] by blast
  have lenne: "length ne = length (filter (\<lambda>t. 3 \<le> length t) (d_keywords data))"
    using ne by (rule list_all2_lengthD)
  have nkvalid: "nk \<noteq> [] \<Longrightarrow> filter (\<lambda>t. 3 \<le> length t) (d_keywords data) \<noteq> []"
  proof -
    assume "nk \<noteq> []"
    then obtain k where "k \<in> set nk" by (cases nk) auto
    with nk have "k_text k \<in> set (d_keywords data)" "3 \<le> length (k_text k)"
      by (auto simp: newKeywordOk_def)
    then show ?thesis by (auto simp: filter_empty_conv)
  qed
  have fires: "fallbackFires wid data g \<longleftrightarrow> (ws \<noteq> [] \<and> ?kes0 @ ne = [] \<and> ?ks0 @ nk = [])"
    using wsne lenne nkvalid unfolding fallbackFires_def by auto
  have m: "mergePageData env data g =
       \<lparr>g_websites = ws, g_keywords = ?ks0 @ nk @ tk, g_mentions = ?ms0 @ nm,
        g_websiteToKeywordEdges = ?kes0 @ ne @ te, g_websiteToMentionEdges = ?mes0 @ nme\<rparr>"
    unfolding mergePageData_def by (simp add: u kl ml tf Let_def)
  have f: "if fallbackFires wid data g then
        nk = [] \<and> ne = [] \<and>
        (\<exists>k e. tk = [k] \<and> te = [e] \<and> k_text k = ''Test Keyword'' \<and>
           k_sourceWebsiteId k = Some (w_id (hd ws)) \<and> k_position k = None \<and>
           e_source e = w_id (hd ws) \<and> e_target e = k_id k)
      else tk = [] \<and> te = []"
    using tft fires by (auto split: if_splits)
  have m1: "g_websites (mergePageData env data g) = ws"
    and m2: "g_keywords (mergePageData env data g) =
       filter (\<lambda>k. k_sourceWebsiteId k \<noteq> Some wid) (g_keywords g) @ nk @ tk"
    and m3: "g_mentions (mergePageData env data g) =
       filter (\<lambda>m. m_sourceWebsiteId m \<noteq> wid) (g_mentions g) @ nm"
    and m4: "g_websiteToKeywordEdges (mergePageData env data g) =
       filter (\<lambda>e. e_source e \<noteq> wid) (g_websiteToKeywordEdges g) @ ne @ te"
    and m5: "g_websiteToMentionEdges (mergePageData env data g) =
       filter (\<lambda>e. e_source e \<noteq> wid) (g_websiteToMentionEdges g) @ nme"
    by (simp_all add: m)
  from u m1 m2 m3 m4 m5 nk dist ne f nm nme show ?thesis unfolding w by blast
qed


lemma mergePageData_parts:
  "\<exists>ws n0 nk ne tk te nm nme. mergeParts env data g ws n0 nk ne tk te nm nme"
  using mergePageData_shape [of env data g] unfolding mergeParts_def by (elim exE conjE) blast

lemma mergePartsD:
  assumes "mergeParts env data g ws n0 nk ne tk te nm nme"
  shows "(upsertWebsite env data (g_websites g) = (websiteIdOf env data g, ws, n0))"
    and "(g_websites (mergePageData env data g) = ws)"
    and "(g_keywords (mergePageData env data g) =
       filter (\<lambda>k. k_sourceWebsiteId k \<noteq> Some (websiteIdOf env data g)) (g_keywords g) @ nk @ tk)"
    and "(g_mentions (mergePageData env data g) =
       filter (\<lambda>m. m_sourceWebsiteId m \<noteq> websiteIdOf env data g) (g_mentions g) @ nm)"
    and "(g_websiteToKeywordEdges (mergePageData env data g) =
       filter (\<lambda>e. e_source e \<noteq> websiteIdOf env data g) (g_websiteToKeywordEdges g) @ ne @ te)"
    and "(g_websiteToMentionEdges (mergePageData env data g) =
       filter (\<lambda>e. e_source e \<noteq> websiteIdOf env data g) (g_websiteToMentionEdges g) @ nme)"
    and "(\<forall>k \<in> set nk.
        newKeywordOk
          (savePositions
             (filter (\<lambda>k. k_sourceWebsiteId k = Some (websiteIdOf env data g)) (g_keywords g)))
          (d_keywords data) k)"
    and "(distinct (map kwKey
         (filter (\<lambda>k. k_sourceWebsiteId k \<noteq> Some (websiteIdOf env data g)) (g_keywords g))) \<longrightarrow>
      distinct (map kwKey
         (filter (\<lambda>k. k_sourceWebsiteId k \<noteq> Some (websiteIdOf env data g)) (g_keywords g) @ nk)))"
    and "(list_all2 (\<lambda>e t. e_source e = websiteIdOf env data g \<and>
                 (\<exists>k \<in> set (filter (\<lambda>k. k_sourceWebsiteId k \<noteq> Some (websiteIdOf env data g))
                               (g_keywords g) @ nk).
                    k_id k = e_target e \<and> kwKey k = toLowerCase t))
       ne (filter (\<lambda>t. 3 \<le> length t) (d_keywords data)))"
    and "(if fallbackFires (websiteIdOf env data g) data g then
        nk = [] \<and> ne = [] \<and>
        (\<exists>k e. tk = [k] \<and> te = [e] \<and> k_text k = ''Test Keyword'' \<and>
           k_sourceWebsiteId k = Some (w_id (hd ws)) \<and> k_position k = None \<and>
           e_source e = w_id (hd ws) \<and> e_target e = k_id k)
      else tk = [] \<and> te = [])"
    and "(list_all2
       (newMentionOk (websiteIdOf env data g)
          (filter (\<lambda>m. m_sourceWebsiteId m = websiteIdOf env data g) (g_mentions g)))
       nm (filter validMention (d_mentions data)))"
    and "(list_all2 (\<lambda>e m. e_source e = websiteIdOf env data g \<and> e_target e = m_id m) nme nm)"
proof -
  note c = assms [unfolded mergeParts_def]
  show "(upsertWebsite env data (g_websites g) = (websiteIdOf env data g, ws, n0))"
    by (rule c [THEN conjunct1])
  show "(g_websites (mergePageData env data g) = ws)"
    by (rule c [THEN conjunct2, THEN conjunct1])
  show "(g_keywords (mergePageData env data g) =
       filter (\<lambda>k. k_sourceWebsiteId k \<noteq> Some (websiteIdOf env data g)) (g_keywords g) @ nk @ tk)"
    by (rule c [THEN conjunct2, THEN conjunct2, THEN conjunct1])
  show "(g_mentions (mergePageData env data g) =
       filter (\<lambda>m. m_sourceWebsiteId m \<noteq> websiteIdOf env data g) (g_mentions g) @ nm)"
    by (rule c [THEN conjunct2, THEN conjunct2, THEN conjunct2, THEN conjunct1])
  show "(g_websiteToKeywordEdges (mergePageData env data g) =
       filter (\<lambda>e. e_source e \<noteq> websiteIdOf env data g) (g_websiteToKeywordEdges g) @ ne @ te)"
    by (rule c [THEN conjunct2, THEN conjunct2, THEN conjunct2, THEN conjunct2, THEN conjunct1])
  show "(g_websiteToMentionEdges (mergePageData env data g) =
       filter (\<lambda>e. e_source e \<noteq> websiteIdOf env data g) (g_websiteToMentionEdges g) @ nme)"
    by (rule c [THEN conjunct2, THEN conjunct2, THEN conjunct2, THEN conjunct2, THEN conjunct2, THEN conjunct1])
  show "(\<forall>k \<in> set nk.
        newKeywordOk
          (savePositions
             (filter (\<lambda>k. k_sourceWebsiteId k = Some (websiteIdOf env data g)) (g_keywords g)))
          (d_keywords data) k)"
    by (rule c [THEN conjunct2, THEN conjunct2, THEN conjunct2, THEN conjunct2, THEN conjunct2, THEN conjunct2, THEN conjunct1])
  show "(distinct (map kwKey
         (filter (\<lambda>k. k_sourceWebsiteId k \<noteq> Some (websiteIdOf env data g)) (g_keywords g))) \<longrightarrow>
      distinct (map kwKey
         (filter (\<lambda>k. k_sourceWebsiteId k \<noteq> Some (websiteIdOf env data g)) (g_keywords g) @ nk)))"
    by (rule c [THEN conjunct2, THEN conjunct2, THEN conjunct2, THEN conjunct2, THEN conjunct2, THEN conjunct2, THEN conjunct2, THEN conjunct1])
  show "(list_all2 (\<lambda>e t. e_source e = websiteIdOf env data g \<and>
                 (\<exists>k \<in> set (filter (\<lambda>k. k_sourceWebsiteId k \<noteq> Some (websiteIdOf env data g))
                               (g_keywords g) @ nk).
                    k_id k = e_target e \<and> kwKey k = toLowerCase t))
       ne (filter (\<lambda>t. 3 \<le> length t) (d_keywords data)))"
    by (rule c [THEN conjunct2, THEN conjunct2, THEN conjunct2, THEN conjunct2, THEN conjunct2, THEN conjunct2, THEN conjunct2, THEN conjunct2, THEN conjunct1])
  show "(if fallbackFires (websiteIdOf env data g) data g then
        nk = [] \<and> ne = [] \<and>
        (\<exists>k e. tk = [k] \<and> te = [e] \<and> k_text k = ''Test Keyword'' \<and>
           k_sourceWebsiteId k = Some (w_id (hd ws)) \<and> k_position k = None \<and>
           e_source e = w_id (hd ws) \<and> e_target e = k_id k)
      else tk = [] \<and> te = [])"
    by (rule c [THEN conjunct2, THEN conjunct2, THEN conjunct2, THEN conjunct2, THEN conjunct2, THEN conjunct2, THEN conjunct2, THEN conjunct2, THEN conjunct2, THEN conjunct1])
  show "(list_all2
       (newMentionOk (websiteIdOf env data g)
          (filter (\<lambda>m. m_sourceWebsiteId m = websiteIdOf env data g) (g_mentions g)))
       nm (filter validMention (d_mentions data)))"
    by (rule c [THEN conjunct2, THEN conjunct2, THEN conjunct2, THEN conjunct2, THEN conjunct2, THEN conjunct2, THEN conjunct2, THEN conjunct2, THEN conjunct2, THEN conjunct2, THEN conjunct1])
  show "(list_all2 (\<lambda>e m. e_source e = websiteIdOf env data g \<and> e_target e = m_id m) nme nm)"
    by (rule c [THEN conjunct2, THEN conjunct2, THEN conjunct2, THEN conjunct2, THEN conjunct2, THEN conjunct2, THEN conjunct2, THEN conjunct2, THEN conjunct2, THEN conjunct2, THEN conjunct2])
qed

subsection \<open>Keyword texts stay unique\<close>

lemma list_all2_right_mem:
  "list_all2 P xs ys \<Longrightarrow> y \<in> set ys \<Longrightarrow> \<exists>x \<in> set xs. P x y"
  by (induction rule: list_all2_induct) auto

lemma distinct_map_same:
  "distinct (map f xs) \<Longrightarrow> a \<in> set xs \<Longrightarrow> b \<in> set xs \<Longrightarrow> f a = f b \<Longrightarrow> a = b"
  by (auto simp: distinct_map dest: inj_onD)

lemma distinct_map_filter_single:
  "distinct (map f xs) \<Longrightarrow> a \<in> set xs \<Longrightarrow> filter (\<lambda>b. f b = f a) xs = [a]"
proof (induction xs)
  case Nil
  then show ?case by simp
next
  case (Cons x xs)
  show ?case
  proof (cases "x = a")
    case True
    with Cons.prems have "\<forall>b \<in> set xs. f b \<noteq> f a" by (auto simp: image_iff)
    then have "filter (\<lambda>b. f b = f a) xs = []" by (simp add: filter_empty_conv)
    with True show ?thesis by simp
  next
    case False
    with Cons.prems have a: "a \<in> set xs" "distinct (map f xs)" by auto
    with Cons.prems have "f x \<noteq> f a" by (auto simp: image_iff)
    with Cons.IH a show ?thesis by simp
  qed
qed

lemma map_kwKey_position_update:
  "map kwKey (map (\<lambda>k. if P k then k\<lparr>k_position := q\<rparr> else k) ks) = map kwKey ks"
  by (induction ks) auto

lemma length_position_update:
  "(\<forall>k \<in> set (map (\<lambda>k. if P k then k\<lparr>k_position := q\<rparr> else k) ks). 3 \<le> length (k_text k))
   \<longleftrightarrow> (\<forall>k \<in> set ks. 3 \<le> length (k_text k))"
  by (induction ks) auto

lemma merge_keeps_unique:
  assumes "distinct (map kwKey (g_keywords g))"
  shows "distinct (map kwKey (g_keywords (mergePageData env data g)))"
proof -
  let ?wid = "websiteIdOf env data g"
  let ?ks0 = "filter (\<lambda>k. k_sourceWebsiteId k \<noteq> Some ?wid) (g_keywords g)"
  obtain ws n0 nk ne tk te nm nme where
    parts: "mergeParts env data g ws n0 nk ne tk te nm nme"
    using mergePageData_parts by blast
  note m = mergePartsD(3) [OF parts]
    and d = mergePartsD(8) [OF parts]
    and f = mergePartsD(10) [OF parts]
  have "distinct (map kwKey ?ks0)"
    using assms by (rule distinct_map_filter)
  with d have dk: "distinct (map kwKey (?ks0 @ nk))" by simp
  show ?thesis
  proof (cases "fallbackFires ?wid data g")
    case True
    then have "?ks0 = []" by (simp add: fallbackFires_def)
    with True f m show ?thesis by auto
  next
    case False
    with f m dk show ?thesis by simp
  qed
qed

lemma merge_keeps_lengths:
  assumes "\<forall>k \<in> set (g_keywords g). 3 \<le> length (k_text k)"
  shows "\<forall>k \<in> set (g_keywords (mergePageData env data g)). 3 \<le> length (k_text k)"
proof -
  let ?wid = "websiteIdOf env data g"
  let ?ks0 = "filter (\<lambda>k. k_sourceWebsiteId k \<noteq> Some ?wid) (g_keywords g)"
  let ?kp = "savePositions (filter (\<lambda>k. k_sourceWebsiteId k = Some ?wid) (g_keywords g))"
  obtain ws n0 nk ne tk te nm nme where
    parts: "mergeParts env data g ws n0 nk ne tk te nm nme"
    using mergePageData_parts by blast
  note m = mergePartsD(3) [OF parts]
    and nk = mergePartsD(7) [OF parts]
    and f = mergePartsD(10) [OF parts]
  have "\<forall>k \<in> set tk. 3 \<le> length (k_text k)"
    using f by (auto split: if_splits)
  moreover have "\<forall>k \<in> set nk. 3 \<le> length (k_text k)"
    using nk by (simp add: newKeywordOk_def)
  ultimately show ?thesis using assms by (auto simp: m)
qed

lemma reachable_keywords:
  "reachable g \<Longrightarrow>
   distinct (map kwKey (g_keywords g)) \<and> (\<forall>k \<in> set (g_keywords g). 3 \<le> length (k_text k))"
proof (induction rule: reachable.induct)
  case init
  show ?case by (simp add: emptyGraphData_def)
next
  case (merge g env data)
  then show ?case using merge_keeps_unique merge_keeps_lengths by blast
next
  case (websitePosition g i p)
  then show ?case by (simp add: updateWebsitePosition_def)
next
  case (keywordPosition g i p)
  then show ?case
    by (simp add: updateKeywordPosition_def map_kwKey_position_update length_position_update
          del: map_map set_map)
next
  case (mentionPosition g i p)
  then show ?case by (simp add: updateMentionPosition_def)
next
  case (reset g)
  show ?case by (simp add: resetGraph_def)
qed

text \<open>A keyword of the page that is long enough ends up linked.\<close>

lemma merged_keyword_linked:
  assumes "t \<in> set (d_keywords data)" and "3 \<le> length t"
  shows "\<exists>e \<in> set (g_websiteToKeywordEdges (mergePageData env data g)).
           e_source e = websiteIdOf env data g \<and>
           (\<exists>k \<in> set (g_keywords (mergePageData env data g)).
              k_id k = e_target e \<and> kwKey k = toLowerCase t)"
proof -
  let ?wid = "websiteIdOf env data g"
  let ?ks0 = "filter (\<lambda>k. k_sourceWebsiteId k \<noteq> Some ?wid) (g_keywords g)"
  let ?kes0 = "filter (\<lambda>e. e_source e \<noteq> ?wid) (g_websiteToKeywordEdges g)"
  obtain ws n0 nk ne tk te nm nme where
    parts: "mergeParts env data g ws n0 nk ne tk te nm nme"
    using mergePageData_parts by blast
  note m = mergePartsD(3) [OF parts] mergePartsD(5) [OF parts]
    and ne = mergePartsD(9) [OF parts]
  from assms have "t \<in> set (filter (\<lambda>t. 3 \<le> length t) (d_keywords data))" by simp
  from list_all2_right_mem [OF ne this]
  obtain e where e: "e \<in> set ne" "e_source e = ?wid"
    "\<exists>k \<in> set (?ks0 @ nk). k_id k = e_target e \<and> kwKey k = toLowerCase t"
    by blast
  from e(3) obtain k where k: "k \<in> set (?ks0 @ nk)" "k_id k = e_target e" "kwKey k = toLowerCase t"
    by blast
  have "e \<in> set (g_websiteToKeywordEdges (mergePageData env data g))"
    using e(1) by (simp add: m)
  moreover have "k \<in> set (g_keywords (mergePageData env data g))"
    using k(1) by (auto simp: m)
  ultimately show ?thesis using e(2) k(2,3) by blast
qed


subsection \<open>Saved positions\<close>

lemma fold_position_other:
  "key \<notin> kwKey ` set xs \<Longrightarrow> fold savePosition xs m key = m key"
  by (induction xs arbitrary: m) (auto simp: savePosition_def)

lemma fold_position_lookup:
  "distinct (map kwKey xs) \<Longrightarrow> a \<in> set xs \<Longrightarrow>
   fold savePosition xs m (kwKey a) = Some (k_position a)"
proof (induction xs arbitrary: m)
  case Nil
  then show ?case by simp
next
  case (Cons x xs)
  show ?case
  proof (cases "a \<in> set xs")
    case True
    with Cons show ?thesis by simp
  next
    case False
    with Cons.prems have ax: "a = x" and other: "kwKey a \<notin> kwKey ` set xs" by auto
    from other
    have "fold savePosition xs (savePosition x m) (kwKey a) = savePosition x m (kwKey a)"
      by (rule fold_position_other)
    also have "\<dots> = Some (k_position a)"
      by (simp add: ax savePosition_def)
    finally show ?thesis by simp
  qed
qed

lemma savePositions_lookup:
  "distinct (map kwKey xs) \<Longrightarrow> a \<in> set xs \<Longrightarrow>
   lookupPosition (savePositions xs) (kwKey a) = k_position a"
  by (simp add: lookupPosition_def savePositions_def fold_position_lookup)

lemma keyword_position_kept:
  assumes uniq: "distinct (map kwKey (g_keywords g))"
    and long: "\<forall>k \<in> set (g_keywords g). 3 \<le> length (k_text k)"
    and k: "k \<in> set (g_keywords g)"
    and t: "t \<in> set (d_keywords data)" "toLowerCase t = kwKey k"
  shows "(\<exists>k' \<in> set (g_keywords (mergePageData env data g)). kwKey k' = kwKey k) \<and>
         (\<forall>k' \<in> set (g_keywords (mergePageData env data g)).
            kwKey k' = kwKey k \<longrightarrow> k_position k' = k_position k)"
proof -
  let ?wid = "websiteIdOf env data g"
  let ?ks0 = "filter (\<lambda>k. k_sourceWebsiteId k \<noteq> Some ?wid) (g_keywords g)"
  let ?ex = "filter (\<lambda>k. k_sourceWebsiteId k = Some ?wid) (g_keywords g)"
  have "length t = length (kwKey k)"
    using t(2) length_toLowerCase [of t] by simp
  then have len: "3 \<le> length t"
    using long k by simp
  obtain ws n0 nk ne tk te nm nme where
    parts: "mergeParts env data g ws n0 nk ne tk te nm nme"
    using mergePageData_parts by blast
  note m = mergePartsD(3) [OF parts]
    and nk = mergePartsD(7) [OF parts]
    and d = mergePartsD(8) [OF parts]
    and f = mergePartsD(10) [OF parts]
  have "filter (\<lambda>t. 3 \<le> length t) (d_keywords data) \<noteq> []"
    using t(1) len by (auto simp: filter_empty_conv)
  then have "\<not> fallbackFires ?wid data g"
    by (simp add: fallbackFires_def)
  with f have tk: "tk = []" by simp
  have d0: "distinct (map kwKey ?ks0)"
    using uniq by (rule distinct_map_filter)
  with d have dk: "distinct (map kwKey (?ks0 @ nk))" by simp
  have ex: "\<exists>k' \<in> set (g_keywords (mergePageData env data g)). kwKey k' = kwKey k"
    using merged_keyword_linked [OF t(1) len, of env g] t(2) by auto
  have pos: "k_position k' = k_position k"
    if k': "k' \<in> set (g_keywords (mergePageData env data g))" and key: "kwKey k' = kwKey k" for k'
  proof -
    from k' have "k' \<in> set ?ks0 \<or> k' \<in> set nk"
      by (simp add: m tk)
    then show ?thesis
    proof
      assume "k' \<in> set ?ks0"
      then have "k' \<in> set (g_keywords g)" by simp
      then have "k' = k" using distinct_map_same [OF uniq _ k key] by blast
      then show ?thesis by simp
    next
      assume new: "k' \<in> set nk"
      with nk have p: "k_position k' = lookupPosition (savePositions ?ex) (kwKey k')"
        by (simp add: newKeywordOk_def)
      have "k \<notin> set ?ks0"
      proof
        assume "k \<in> set ?ks0"
        then have "kwKey k \<in> kwKey ` set ?ks0" by (rule imageI)
        moreover have "kwKey k \<in> kwKey ` set nk"
          using new key by (metis imageI)
        ultimately show False using dk by auto
      qed
      with k have "k \<in> set ?ex" by simp
      moreover have "distinct (map kwKey ?ex)"
        using uniq by (rule distinct_map_filter)
      ultimately have "lookupPosition (savePositions ?ex) (kwKey k) = k_position k"
        by (intro savePositions_lookup)
      with p key show ?thesis by simp
    qed
  qed
  from ex pos show ?thesis by blast
qed

subsection \<open>The ids of new mentions\<close>

lemma mentionLoop_ids:
  "map m_id (fst (snd (mentionLoop env wid ex mds (n, ms, es)))) =
     map m_id ms @
     map (\<lambda>j. genId env ''mention-'' (n + 2 * j)) [0..<length (filter validMention mds)]"
proof (induction mds arbitrary: n ms es)
  case Nil
  show ?case by simp
next
  case (Cons md mds)
  show ?case
  proof (cases "validMention md")
    case False
    with Cons.IH [of n ms es] show ?thesis by (simp add: mentionStep_skip)
  next
    case True
    then obtain m e where s: "mentionStep env wid ex md (n, ms, es) = (n + 2, ms @ [m], es @ [e])"
      and i: "m_id m = genId env ''mention-'' n"
      using mentionStep_new [of md env wid ex n ms es] by blast
    show ?thesis
      using True Cons.IH [of "n + 2" "ms @ [m]" "es @ [e]"]
      by (simp add: s i map_upt_Suc del: upt_Suc)
  qed
qed

lemma merged_mention_ids:
  "\<exists>n1. map m_id (g_mentions (mergePageData env data g)) =
      map m_id (filter (\<lambda>m. m_sourceWebsiteId m \<noteq> websiteIdOf env data g) (g_mentions g)) @
      map (\<lambda>j. genId env ''mention-'' (n1 + 2 * j))
        [0..<length (filter validMention (d_mentions data))]"
proof -
  obtain wid ws n0 where u: "upsertWebsite env data (g_websites g) = (wid, ws, n0)"
    by (cases "upsertWebsite env data (g_websites g)") auto
  then have w: "websiteIdOf env data g = wid"
    by (simp add: websiteIdOf_def)
  let ?ks0 = "filter (\<lambda>k. k_sourceWebsiteId k \<noteq> Some wid) (g_keywords g)"
  let ?kes0 = "filter (\<lambda>e. e_source e \<noteq> wid) (g_websiteToKeywordEdges g)"
  let ?kp = "savePositions (filter (\<lambda>k. k_sourceWebsiteId k = Some wid) (g_keywords g))"
  let ?ex = "filter (\<lambda>m. m_sourceWebsiteId m = wid) (g_mentions g)"
  let ?ms0 = "filter (\<lambda>m. m_sourceWebsiteId m \<noteq> wid) (g_mentions g)"
  let ?mes0 = "filter (\<lambda>e. e_source e \<noteq> wid) (g_websiteToMentionEdges g)"
  obtain n1 ks1 kes1 where
    kl: "keywordLoop env wid ?kp (d_keywords data) (n0, ?ks0, ?kes0) = (n1, ks1, kes1)"
    by (cases "keywordLoop env wid ?kp (d_keywords data) (n0, ?ks0, ?kes0)") auto
  obtain n2 ms1 mes1 where
    ml: "mentionLoop env wid ?ex (d_mentions data) (n1, ?ms0, ?mes0) = (n2, ms1, mes1)"
    by (cases "mentionLoop env wid ?ex (d_mentions data) (n1, ?ms0, ?mes0)") auto
  obtain ks2 kes2 where tf: "testFallback env n2 ws ks1 kes1 = (ks2, kes2)"
    by (cases "testFallback env n2 ws ks1 kes1") auto
  have "g_mentions (mergePageData env data g) = ms1"
    unfolding mergePageData_def by (simp add: u kl ml tf Let_def)
  moreover have "map m_id ms1 = map m_id ?ms0 @
      map (\<lambda>j. genId env ''mention-'' (n1 + 2 * j))
        [0..<length (filter validMention (d_mentions data))]"
    using mentionLoop_ids [of env wid ?ex "d_mentions data" n1 ?ms0 ?mes0] by (simp add: ml)
  ultimately show ?thesis unfolding w by blast
qed

subsection \<open>Which keyword nodes a merge keeps\<close>

lemma mergeAll_Nil [simp]: "mergeAll [] g = g"
  by (simp add: mergeAll_def)

lemma mergeAll_Cons [simp]: "mergeAll ((env, data) # steps) g = mergeAll steps (mergePageData env data g)"
  by (simp add: mergeAll_def)

lemma unowned_keyword_kept:
  assumes "k \<in> set (g_keywords g)" and "k_sourceWebsiteId k \<noteq> Some (websiteIdOf env data g)"
  shows "k \<in> set (g_keywords (mergePageData env data g))"
proof -
  obtain ws n0 nk ne tk te nm nme where
    parts: "mergeParts env data g ws n0 nk ne tk te nm nme"
    using mergePageData_parts by blast
  from assms show ?thesis by (simp add: mergePartsD(3) [OF parts])
qed

lemma sourceless_keyword_survives:
  "k \<in> set (g_keywords g) \<Longrightarrow> k_sourceWebsiteId k = None \<Longrightarrow> k \<in> set (g_keywords (mergeAll steps g))"
proof (induction steps arbitrary: g)
  case Nil
  then show ?case by simp
next
  case (Cons step steps)
  obtain env data where step: "step = (env, data)" by (cases step)
  from Cons.prems have "k \<in> set (g_keywords (mergePageData env data g))"
    by (intro unowned_keyword_kept) auto
  with Cons.IH Cons.prems(2) show ?case by (simp add: step)
qed

text \<open>
  Claim C10, as the code has it. A merge for a website removes exactly the keyword nodes
  whose \<^verbatim>\<open>sourceWebsiteId\<close> is the id of that website and keeps every other keyword node as
  it is, in order. What it appends is either a node of the keyword loop, stored without
  \<^verbatim>\<open>sourceWebsiteId\<close>, or the test keyword, owned by the first website. So a node without
  \<^verbatim>\<open>sourceWebsiteId\<close> survives every sequence of merges, and \<^verbatim>\<open>resetGraph\<close> empties the
  keyword list.
\<close>

theorem keyword_nodes_kept_unless_owned:
  "(\<exists>new. g_keywords (mergePageData env data g) =
            filter (\<lambda>k. k_sourceWebsiteId k \<noteq> Some (websiteIdOf env data g)) (g_keywords g) @ new
          \<and> (\<forall>k \<in> set new. k_sourceWebsiteId k = None
                \<or> (k_text k = ''Test Keyword''
                    \<and> k_sourceWebsiteId k = Some (w_id (hd (g_websites (mergePageData env data g)))))))
   \<and> (\<forall>k \<in> set (g_keywords g). k_sourceWebsiteId k = None \<longrightarrow> k \<in> set (g_keywords (mergeAll steps g)))
   \<and> g_keywords (resetGraph g) = []"
proof (intro conjI)
  obtain ws n0 nk ne tk te nm nme where
    parts: "mergeParts env data g ws n0 nk ne tk te nm nme"
    using mergePageData_parts by blast
  note ws = mergePartsD(2) [OF parts]
    and m = mergePartsD(3) [OF parts]
    and nk = mergePartsD(7) [OF parts]
    and f = mergePartsD(10) [OF parts]
  have a: "\<forall>k \<in> set nk. k_sourceWebsiteId k = None"
    using nk by (simp add: newKeywordOk_def)
  have b: "\<forall>k \<in> set tk. k_text k = ''Test Keyword'' \<and> k_sourceWebsiteId k = Some (w_id (hd ws))"
    using f by (auto split: if_splits)
  show "\<exists>new. g_keywords (mergePageData env data g) =
            filter (\<lambda>k. k_sourceWebsiteId k \<noteq> Some (websiteIdOf env data g)) (g_keywords g) @ new
          \<and> (\<forall>k \<in> set new. k_sourceWebsiteId k = None
                \<or> (k_text k = ''Test Keyword''
                    \<and> k_sourceWebsiteId k = Some (w_id (hd (g_websites (mergePageData env data g))))))"
    unfolding ws using a b by (intro exI [of _ "nk @ tk"]) (auto simp: m)
  show "\<forall>k \<in> set (g_keywords g). k_sourceWebsiteId k = None \<longrightarrow> k \<in> set (g_keywords (mergeAll steps g))"
    by (auto intro: sourceless_keyword_survives)
  show "g_keywords (resetGraph g) = []"
    by (simp add: resetGraph_def)
qed

text \<open>
  Against claim C10 as stated: the first merge into the empty graph, for a page without
  keywords, stores the test keyword with a \<^verbatim>\<open>sourceWebsiteId\<close>; the next merge of the same
  page, now with a keyword, removes it.
\<close>

theorem test_keyword_owned_and_removed:
  "g_keywords (mergePageData (envAt 100) (page ''u0'' ''t'' [] []) emptyGraphData) =
     [\<lparr>k_id = ''keyword-test-102'', k_text = ''Test Keyword'',
       k_sourceWebsiteId = Some ''website-100-r'', k_position = None\<rparr>]
   \<and> g_keywords (mergePageData (envAt 200) (page ''u0'' ''t'' [''react''] [])
        (mergePageData (envAt 100) (page ''u0'' ''t'' [] []) emptyGraphData)) =
     [\<lparr>k_id = ''keyword-201-r'', k_text = ''react'', k_sourceWebsiteId = None,
       k_position = None\<rparr>]"
  by code_simp

text \<open>The theorem at a graph with one keyword, merged again without it.\<close>

theorem keyword_nodes_kept_unless_owned_witness:
  "g_keywords (mergePageData (envAt 100) (page ''u0'' ''t'' [''react''] []) emptyGraphData) =
     [\<lparr>k_id = ''keyword-102-r'', k_text = ''react'', k_sourceWebsiteId = None, k_position = None\<rparr>]
   \<and> \<lparr>k_id = ''keyword-102-r'', k_text = ''react'', k_sourceWebsiteId = None, k_position = None\<rparr>
       \<in> set (g_keywords (mergeAll [(envAt 200, page ''u0'' ''t'' [] [])]
            (mergePageData (envAt 100) (page ''u0'' ''t'' [''react''] []) emptyGraphData)))"
proof -
  have e: "g_keywords (mergePageData (envAt 100) (page ''u0'' ''t'' [''react''] []) emptyGraphData) =
     [\<lparr>k_id = ''keyword-102-r'', k_text = ''react'', k_sourceWebsiteId = None, k_position = None\<rparr>]"
    by code_simp
  show ?thesis
    using keyword_nodes_kept_unless_owned
      [of "envAt 200" "page ''u0'' ''t'' [] []"
          "mergePageData (envAt 100) (page ''u0'' ''t'' [''react''] []) emptyGraphData"
          "[(envAt 200, page ''u0'' ''t'' [] [])]"] e
    by simp
qed

subsection \<open>Positions\<close>

text \<open>
  Claim C3. Keyword half: in a graph the extension can hold, take a keyword node \<open>k\<close> and
  a page that lists, in any letter case, the text of \<open>k\<close>. After the merge the graph has a
  node with that text (up to case), and every node with that text has the position \<open>k\<close>
  had: the node either stayed as it was, or was removed and built again with the position
  saved under its lower-case text. Website half, for every graph and every page: each node
  that was in the list keeps its place, its id, its url and its \<^verbatim>\<open>lastPosition\<close>, and a
  merge for a url that is already in the list adds no node.
\<close>

theorem positions_survive_merge:
  "(reachable g \<and> k \<in> set (g_keywords g) \<and> t \<in> set (d_keywords data)
      \<and> toLowerCase t = kwKey k \<longrightarrow>
      (\<exists>k' \<in> set (g_keywords (mergePageData env data g)). kwKey k' = kwKey k) \<and>
      (\<forall>k' \<in> set (g_keywords (mergePageData env data g)).
         kwKey k' = kwKey k \<longrightarrow> k_position k' = k_position k)) \<and>
   (\<forall>i < length (g_websites g).
      w_id (g_websites (mergePageData env data g) ! i) = w_id (g_websites g ! i) \<and>
      w_url (g_websites (mergePageData env data g) ! i) = w_url (g_websites g ! i) \<and>
      w_lastPosition (g_websites (mergePageData env data g) ! i)
        = w_lastPosition (g_websites g ! i)) \<and>
   ((\<exists>w \<in> set (g_websites g). w_url w = d_url data) \<longrightarrow>
      length (g_websites (mergePageData env data g)) = length (g_websites g))"
proof (intro conjI impI)
  assume a: "reachable g \<and> k \<in> set (g_keywords g) \<and> t \<in> set (d_keywords data)
      \<and> toLowerCase t = kwKey k"
  then have inv: "distinct (map kwKey (g_keywords g))"
    "\<forall>k \<in> set (g_keywords g). 3 \<le> length (k_text k)"
    using reachable_keywords by blast+
  from a have k: "k \<in> set (g_keywords g)" and t: "t \<in> set (d_keywords data)"
    and key: "toLowerCase t = kwKey k"
    by simp_all
  note kept = keyword_position_kept [OF inv k t key, of env]
  show "\<exists>k' \<in> set (g_keywords (mergePageData env data g)). kwKey k' = kwKey k"
    by (rule kept [THEN conjunct1])
  show "\<forall>k' \<in> set (g_keywords (mergePageData env data g)).
          kwKey k' = kwKey k \<longrightarrow> k_position k' = k_position k"
    by (rule kept [THEN conjunct2])
next
  obtain ws n0 nk ne tk te nm nme where
    parts: "mergeParts env data g ws n0 nk ne tk te nm nme"
    using mergePageData_parts by blast
  note u = mergePartsD(1) [OF parts] and w = mergePartsD(2) [OF parts]
  show "\<forall>i < length (g_websites g).
      w_id (g_websites (mergePageData env data g) ! i) = w_id (g_websites g ! i) \<and>
      w_url (g_websites (mergePageData env data g) ! i) = w_url (g_websites g ! i) \<and>
      w_lastPosition (g_websites (mergePageData env data g) ! i)
        = w_lastPosition (g_websites g ! i)"
    unfolding w by (rule upsertWebsite_props(2) [OF u])
  show "length (g_websites (mergePageData env data g)) = length (g_websites g)"
    if "\<exists>w \<in> set (g_websites g). w_url w = d_url data"
    unfolding w using upsertWebsite_props(4) [OF u] that by blast
qed

text \<open>
  The theorem at a graph of one website, dragged to \<open>(30, 40)\<close>, with the test keyword,
  dragged to \<open>(10, 20)\<close>. The page of the website is merged again, once listing the text
  of the test keyword and once without keywords. In the first run the keyword node is
  removed and built again at \<open>(10, 20)\<close>; in both runs the website node is still the only
  one and still at \<open>(30, 40)\<close>.
\<close>

theorem positions_survive_merge_witness:
  "map (\<lambda>w. (w_id w, w_lastPosition w))
     (g_websites (updateWebsitePosition ''website-100-r'' \<lparr>pos_x = 30, pos_y = 40\<rparr>
        (updateKeywordPosition ''keyword-test-102'' \<lparr>pos_x = 10, pos_y = 20\<rparr>
           (mergePageData (envAt 100) (page ''u0'' ''t'' [] []) emptyGraphData))))
     = [(''website-100-r'', Some \<lparr>pos_x = 30, pos_y = 40\<rparr>)]
   \<and> (\<exists>k' \<in> set (g_keywords (mergePageData (envAt 200) (page ''u0'' ''t'' [''test keyword''] [])
          (updateWebsitePosition ''website-100-r'' \<lparr>pos_x = 30, pos_y = 40\<rparr>
             (updateKeywordPosition ''keyword-test-102'' \<lparr>pos_x = 10, pos_y = 20\<rparr>
                (mergePageData (envAt 100) (page ''u0'' ''t'' [] []) emptyGraphData))))).
        kwKey k' = ''test keyword'' \<and> k_position k' = Some \<lparr>pos_x = 10, pos_y = 20\<rparr>)
   \<and> length (g_websites (mergePageData (envAt 200) (page ''u0'' ''t'' [''test keyword''] [])
          (updateWebsitePosition ''website-100-r'' \<lparr>pos_x = 30, pos_y = 40\<rparr>
             (updateKeywordPosition ''keyword-test-102'' \<lparr>pos_x = 10, pos_y = 20\<rparr>
                (mergePageData (envAt 100) (page ''u0'' ''t'' [] []) emptyGraphData))))) = 1
   \<and> w_lastPosition (g_websites (mergePageData (envAt 200) (page ''u0'' ''t'' [''test keyword''] [])
          (updateWebsitePosition ''website-100-r'' \<lparr>pos_x = 30, pos_y = 40\<rparr>
             (updateKeywordPosition ''keyword-test-102'' \<lparr>pos_x = 10, pos_y = 20\<rparr>
                (mergePageData (envAt 100) (page ''u0'' ''t'' [] []) emptyGraphData)))) ! 0)
       = Some \<lparr>pos_x = 30, pos_y = 40\<rparr>
   \<and> length (g_websites (mergePageData (envAt 300) (page ''u0'' ''t2'' [] [])
          (updateWebsitePosition ''website-100-r'' \<lparr>pos_x = 30, pos_y = 40\<rparr>
             (updateKeywordPosition ''keyword-test-102'' \<lparr>pos_x = 10, pos_y = 20\<rparr>
                (mergePageData (envAt 100) (page ''u0'' ''t'' [] []) emptyGraphData))))) = 1
   \<and> w_lastPosition (g_websites (mergePageData (envAt 300) (page ''u0'' ''t2'' [] [])
          (updateWebsitePosition ''website-100-r'' \<lparr>pos_x = 30, pos_y = 40\<rparr>
             (updateKeywordPosition ''keyword-test-102'' \<lparr>pos_x = 10, pos_y = 20\<rparr>
                (mergePageData (envAt 100) (page ''u0'' ''t'' [] []) emptyGraphData)))) ! 0)
       = Some \<lparr>pos_x = 30, pos_y = 40\<rparr>"
proof -
  let ?g = "updateWebsitePosition ''website-100-r'' \<lparr>pos_x = 30, pos_y = 40\<rparr>
              (updateKeywordPosition ''keyword-test-102'' \<lparr>pos_x = 10, pos_y = 20\<rparr>
                 (mergePageData (envAt 100) (page ''u0'' ''t'' [] []) emptyGraphData))"
  let ?k = "\<lparr>k_id = ''keyword-test-102'', k_text = ''Test Keyword'',
             k_sourceWebsiteId = Some ''website-100-r'',
             k_position = Some \<lparr>pos_x = 10, pos_y = 20\<rparr>\<rparr>"
  let ?w = "\<lparr>w_id = ''website-100-r'', w_url = Some ''u0'', w_title = Some ''t'',
             w_favicon = Some [], w_visitedAt = 101,
             w_lastPosition = Some \<lparr>pos_x = 30, pos_y = 40\<rparr>\<rparr>"
  let ?d = "page ''u0'' ''t'' [''test keyword''] []"
  let ?d2 = "page ''u0'' ''t2'' [] []"
  have r: "reachable ?g"
    by (intro reachable.websitePosition reachable.keywordPosition reachable.merge
          reachable.init)
  have gk: "g_keywords ?g = [?k]"
    by code_simp
  have gw: "g_websites ?g = [?w]"
    by code_simp
  have t: "''test keyword'' \<in> set (d_keywords ?d)"
    by (simp add: page_def)
  have key: "toLowerCase ''test keyword'' = kwKey ?k"
    by code_simp
  have low: "toLowerCase ''Test Keyword'' = ''test keyword''"
    by code_simp
  have url: "d_url ?d = Some ''u0''" "d_url ?d2 = Some ''u0''"
    by (simp_all add: page_def)
  note inst = positions_survive_merge [of ?g ?k "''test keyword''" ?d "envAt 200"]
  note inst2 = positions_survive_merge [of ?g ?k "''test keyword''" ?d2 "envAt 300"]
  have hyp: "reachable ?g \<and> ?k \<in> set (g_keywords ?g) \<and> ''test keyword'' \<in> set (d_keywords ?d)
      \<and> toLowerCase ''test keyword'' = kwKey ?k"
    using r t key by (simp add: gk)
  have "\<forall>k' \<in> set (g_keywords (mergePageData (envAt 200) ?d ?g)).
          kwKey k' = ''test keyword'' \<longrightarrow> k_position k' = Some \<lparr>pos_x = 10, pos_y = 20\<rparr>"
    using inst [THEN conjunct1, rule_format, OF hyp, THEN conjunct2] by (simp add: low)
  moreover have "\<exists>k' \<in> set (g_keywords (mergePageData (envAt 200) ?d ?g)).
          kwKey k' = ''test keyword''"
    using inst [THEN conjunct1, rule_format, OF hyp, THEN conjunct1] by (simp add: low)
  ultimately have a: "\<exists>k' \<in> set (g_keywords (mergePageData (envAt 200) ?d ?g)).
          kwKey k' = ''test keyword'' \<and> k_position k' = Some \<lparr>pos_x = 10, pos_y = 20\<rparr>"
    by blast
  have b: "length (g_websites (mergePageData (envAt 200) ?d ?g)) = 1"
    using inst [THEN conjunct2, THEN conjunct2] by (simp add: gw url)
  have c: "w_lastPosition (g_websites (mergePageData (envAt 200) ?d ?g) ! 0)
       = Some \<lparr>pos_x = 30, pos_y = 40\<rparr>"
    using inst [THEN conjunct2, THEN conjunct1] by (simp add: gw)
  have d: "length (g_websites (mergePageData (envAt 300) ?d2 ?g)) = 1"
    using inst2 [THEN conjunct2, THEN conjunct2] by (simp add: gw url)
  have e: "w_lastPosition (g_websites (mergePageData (envAt 300) ?d2 ?g) ! 0)
       = Some \<lparr>pos_x = 30, pos_y = 40\<rparr>"
    using inst2 [THEN conjunct2, THEN conjunct1] by (simp add: gw)
  have f: "map (\<lambda>w. (w_id w, w_lastPosition w)) (g_websites ?g)
     = [(''website-100-r'', Some \<lparr>pos_x = 30, pos_y = 40\<rparr>)]"
    by (simp add: gw)
  from f a b c d e show ?thesis by blast
qed

subsection \<open>One node for one keyword text\<close>

text \<open>
  What the code does guarantee for keyword texts. A keyword is processed only when it has
  three characters or more. For two merges, one after the other, of pages whose keyword
  lists hold two such keywords that are equal up to letter case, the graph afterwards has
  exactly one keyword node with that text up to case, and an edge from the website of the
  second merge to it. It has an edge from the website of the first merge to it when the
  second merge did not remove the node the first merge linked (it removes a node only when
  the node names the second website in \<^verbatim>\<open>sourceWebsiteId\<close>). In every graph the extension
  can hold, no two keyword nodes have the same text up to case.
\<close>

lemma same_text_one_node:
  assumes "reachable g"
    and "g1 = mergePageData env1 data1 g" and "g2 = mergePageData env2 data2 g1"
    and "t1 \<in> set (d_keywords data1)" and "t2 \<in> set (d_keywords data2)"
    and "toLowerCase t1 = toLowerCase t2" and "3 \<le> length t1" and "3 \<le> length t2"
  shows "distinct (map kwKey (g_keywords g)) \<and> distinct (map kwKey (g_keywords g2)) \<and>
         (\<exists>K. filter (\<lambda>k. kwKey k = toLowerCase t1) (g_keywords g2) = [K] \<and>
            (\<exists>e \<in> set (g_websiteToKeywordEdges g2).
               e_source e = websiteIdOf env2 data2 g1 \<and> e_target e = k_id K) \<and>
            ((\<forall>k \<in> set (g_keywords g1).
                kwKey k = toLowerCase t1 \<longrightarrow>
                k_sourceWebsiteId k \<noteq> Some (websiteIdOf env2 data2 g1)) \<longrightarrow>
             (\<exists>e \<in> set (g_websiteToKeywordEdges g2).
                e_source e = websiteIdOf env1 data1 g \<and> e_target e = k_id K)))"
proof -
  let ?wid1 = "websiteIdOf env1 data1 g" and ?wid2 = "websiteIdOf env2 data2 g1"
  have r1: "reachable g1" and r2: "reachable g2"
    using assms(1,2,3) by (auto intro: reachable.merge)
  have u: "distinct (map kwKey (g_keywords g))"
    and u1: "distinct (map kwKey (g_keywords g1))"
    and u2: "distinct (map kwKey (g_keywords g2))"
    using assms(1) r1 r2 reachable_keywords by blast+
  note len2 = assms(8)
  from merged_keyword_linked [OF assms(5) len2, of env2 g1]
  obtain e2 K where e2: "e2 \<in> set (g_websiteToKeywordEdges g2)" "e_source e2 = ?wid2"
    and K: "K \<in> set (g_keywords g2)" "k_id K = e_target e2" "kwKey K = toLowerCase t1"
    unfolding assms(3) assms(6) by blast
  have single: "filter (\<lambda>k. kwKey k = toLowerCase t1) (g_keywords g2) = [K]"
    using distinct_map_filter_single [OF u2 K(1)] K(3) by simp
  have first: "\<exists>e \<in> set (g_websiteToKeywordEdges g2). e_source e = ?wid1 \<and> e_target e = k_id K"
    if kept: "\<forall>k \<in> set (g_keywords g1).
                kwKey k = toLowerCase t1 \<longrightarrow> k_sourceWebsiteId k \<noteq> Some ?wid2"
  proof -
    from merged_keyword_linked [OF assms(4,7), of env1 g]
    obtain e1 K1 where e1: "e1 \<in> set (g_websiteToKeywordEdges g1)" "e_source e1 = ?wid1"
      and K1: "K1 \<in> set (g_keywords g1)" "k_id K1 = e_target e1" "kwKey K1 = toLowerCase t1"
      unfolding assms(2) by blast
    from kept K1 have "k_sourceWebsiteId K1 \<noteq> Some ?wid2" by blast
    with K1(1) have "K1 \<in> set (g_keywords g2)"
      unfolding assms(3) by (rule unowned_keyword_kept)
    with u2 K(1) K(3) K1(3) have same: "K1 = K"
      using distinct_map_same [of kwKey "g_keywords g2" K1 K] by simp
    show ?thesis
    proof (cases "?wid1 = ?wid2")
      case True
      with e2 K(2) show ?thesis by auto
    next
      case False
      obtain ws n0 nk ne tk te nm nme where
        parts: "mergeParts env2 data2 g1 ws n0 nk ne tk te nm nme"
        using mergePageData_parts by blast
      have "e1 \<in> set (g_websiteToKeywordEdges g2)"
        using e1 False unfolding assms(3) by (simp add: mergePartsD(5) [OF parts])
      with e1(2) K1(2) same show ?thesis by auto
    qed
  qed
  have second: "\<exists>e \<in> set (g_websiteToKeywordEdges g2). e_source e = ?wid2 \<and> e_target e = k_id K"
    using e2 K(2) by auto
  show ?thesis
  proof (intro conjI exI [of _ K] impI)
    show "distinct (map kwKey (g_keywords g))" by (fact u)
    show "distinct (map kwKey (g_keywords g2))" by (fact u2)
    show "filter (\<lambda>k. kwKey k = toLowerCase t1) (g_keywords g2) = [K]" by (fact single)
    show "\<exists>e \<in> set (g_websiteToKeywordEdges g2). e_source e = ?wid2 \<and> e_target e = k_id K"
      by (fact second)
    show "\<exists>e \<in> set (g_websiteToKeywordEdges g2). e_source e = ?wid1 \<and> e_target e = k_id K"
      if "\<forall>k \<in> set (g_keywords g1).
            kwKey k = toLowerCase t1 \<longrightarrow> k_sourceWebsiteId k \<noteq> Some ?wid2"
      using that by (rule first)
  qed
qed

text \<open>
  Claim C1 fails on the code. Three merges into the empty graph: a page without keywords,
  whose website gets the test keyword; a second page, of another website, that lists
  \<^verbatim>\<open>test keyword\<close> and is linked to that node; the first page again, now listing
  \<^verbatim>\<open>Test Keyword\<close>. The last two merges list the same keyword up to case. The third run
  removes the test keyword, which names the first website in \<^verbatim>\<open>sourceWebsiteId\<close>, and
  builds a new node for the text. The graph then has one keyword node with that text, and
  the edge of the first website goes to it; the edge of the second website still has the
  id of the removed node as its target.
\<close>

theorem second_website_edge_misses_keyword:
  "map w_id (g_websites
     (mergePageData (envAt 300) (page ''u0'' ''t0'' [''Test Keyword''] [])
        (mergePageData (envAt 200) (page ''u1'' ''t1'' [''test keyword''] [])
           (mergePageData (envAt 100) (page ''u0'' ''t0'' [] []) emptyGraphData))))
     = [''website-100-r'', ''website-200-r''] \<and>
   g_keywords
     (mergePageData (envAt 300) (page ''u0'' ''t0'' [''Test Keyword''] [])
        (mergePageData (envAt 200) (page ''u1'' ''t1'' [''test keyword''] [])
           (mergePageData (envAt 100) (page ''u0'' ''t0'' [] []) emptyGraphData)))
     = [\<lparr>k_id = ''keyword-301-r'', k_text = ''Test Keyword'', k_sourceWebsiteId = None,
          k_position = None\<rparr>] \<and>
   g_websiteToKeywordEdges
     (mergePageData (envAt 300) (page ''u0'' ''t0'' [''Test Keyword''] [])
        (mergePageData (envAt 200) (page ''u1'' ''t1'' [''test keyword''] [])
           (mergePageData (envAt 100) (page ''u0'' ''t0'' [] []) emptyGraphData)))
     = [\<lparr>e_id = ''edge-202-r'', e_source = ''website-200-r'',
          e_target = ''keyword-test-102''\<rparr>,
        \<lparr>e_id = ''edge-302-r'', e_source = ''website-100-r'',
          e_target = ''keyword-301-r''\<rparr>]"
  by code_simp

subsection \<open>The edges of the merged website\<close>

lemma list_all2_left_all:
  "list_all2 P xs ys \<Longrightarrow> (\<And>x y. P x y \<Longrightarrow> Q x) \<Longrightarrow> \<forall>x \<in> set xs. Q x"
  by (induction rule: list_all2_induct) auto

lemma list_all2_compose:
  "list_all2 P xs ys \<Longrightarrow> list_all2 Q ys zs \<Longrightarrow>
   list_all2 (\<lambda>x z. \<exists>y \<in> set ys. P x y \<and> Q y z) xs zs"
proof (induction arbitrary: zs rule: list_all2_induct)
  case Nil
  then show ?case by simp
next
  case (Cons x xs y ys)
  from Cons.prems obtain z zs' where zs: "zs = z # zs'" "Q y z" "list_all2 Q ys zs'"
    by (auto simp: list_all2_Cons1)
  from Cons.IH [OF zs(3)]
  have "list_all2 (\<lambda>x z. \<exists>y' \<in> set (y # ys). P x y' \<and> Q y' z) xs zs'"
    by (rule list_all2_mono) auto
  with Cons.hyps(1) zs show ?case by auto
qed

lemma filter_all: "\<forall>x \<in> set xs. P x \<Longrightarrow> filter P xs = xs"
  by (induction xs) auto

lemma filter_none: "\<forall>x \<in> set xs. \<not> P x \<Longrightarrow> filter P xs = []"
  by (induction xs) auto

lemma keyword_edges_of_merge:
  fixes env data g
  defines "wid \<equiv> websiteIdOf env data g" and "g' \<equiv> mergePageData env data g"
  shows "(\<not> fallbackFires wid data g \<longrightarrow>
            list_all2 (\<lambda>e t. \<exists>k \<in> set (g_keywords g'). k_id k = e_target e \<and> kwKey k = toLowerCase t)
              (filter (\<lambda>e. e_source e = wid) (g_websiteToKeywordEdges g'))
              (filter (\<lambda>t. 3 \<le> length t) (d_keywords data)) \<and>
            filter (\<lambda>e. e_source e \<noteq> wid) (g_websiteToKeywordEdges g')
              = filter (\<lambda>e. e_source e \<noteq> wid) (g_websiteToKeywordEdges g)) \<and>
         (fallbackFires wid data g \<longrightarrow>
            (\<exists>e k. g_websiteToKeywordEdges g' = [e] \<and> g_keywords g' = [k] \<and>
               e_source e = w_id (hd (g_websites g')) \<and> e_target e = k_id k \<and>
               k_text k = ''Test Keyword''))"
proof -
  let ?ks0 = "filter (\<lambda>k. k_sourceWebsiteId k \<noteq> Some wid) (g_keywords g)"
  let ?kes0 = "filter (\<lambda>e. e_source e \<noteq> wid) (g_websiteToKeywordEdges g)"
  obtain ws n0 nk ne tk te nm nme where
    parts: "mergeParts env data g ws n0 nk ne tk te nm nme"
    using mergePageData_parts by blast
  note w = mergePartsD(2) [OF parts, folded wid_def g'_def]
    and ks = mergePartsD(3) [OF parts, folded wid_def g'_def]
    and kes = mergePartsD(5) [OF parts, folded wid_def g'_def]
    and ne = mergePartsD(9) [OF parts, folded wid_def g'_def]
    and f = mergePartsD(10) [OF parts, folded wid_def g'_def]
  have src: "\<forall>e \<in> set ne. e_source e = wid"
    using ne by (rule list_all2_left_all) simp
  have rel: "list_all2 (\<lambda>e t. \<exists>k \<in> set (g_keywords g'). k_id k = e_target e \<and> kwKey k = toLowerCase t)
               ne (filter (\<lambda>t. 3 \<le> length t) (d_keywords data))"
    using ne by (rule list_all2_mono) (auto simp: ks)
  have a: "list_all2 (\<lambda>e t. \<exists>k \<in> set (g_keywords g'). k_id k = e_target e \<and> kwKey k = toLowerCase t)
              (filter (\<lambda>e. e_source e = wid) (g_websiteToKeywordEdges g'))
              (filter (\<lambda>t. 3 \<le> length t) (d_keywords data)) \<and>
            filter (\<lambda>e. e_source e \<noteq> wid) (g_websiteToKeywordEdges g') = ?kes0"
    if "\<not> fallbackFires wid data g"
  proof -
    from that f have te: "te = []" by simp
    have "filter (\<lambda>e. e_source e = wid) ne = ne"
      using src by (rule filter_all)
    moreover have "filter (\<lambda>e. e_source e \<noteq> wid) ne = []"
      using src by (intro filter_none) simp
    ultimately show ?thesis using rel by (simp add: kes te)
  qed
  have b: "\<exists>e k. g_websiteToKeywordEdges g' = [e] \<and> g_keywords g' = [k] \<and>
               e_source e = w_id (hd (g_websites g')) \<and> e_target e = k_id k \<and>
               k_text k = ''Test Keyword''"
    if "fallbackFires wid data g"
  proof -
    from that have "?ks0 = []" "?kes0 = []"
      by (simp_all add: fallbackFires_def)
    moreover from that f obtain k e where "nk = []" "ne = []" "tk = [k]" "te = [e]"
      "k_text k = ''Test Keyword''" "e_source e = w_id (hd ws)" "e_target e = k_id k"
      by auto
    ultimately show ?thesis by (simp add: ks kes w)
  qed
  from a b show ?thesis by blast
qed

lemma mention_edges_of_merge:
  fixes env data g
  defines "wid \<equiv> websiteIdOf env data g" and "g' \<equiv> mergePageData env data g"
  shows "list_all2 (\<lambda>e md. \<exists>m \<in> set (g_mentions g'). m_id m = e_target e \<and>
              m_text m = md_text md \<and> m_context m = md_context md \<and> m_sourceWebsiteId m = wid)
           (filter (\<lambda>e. e_source e = wid) (g_websiteToMentionEdges g'))
           (filter validMention (d_mentions data)) \<and>
         filter (\<lambda>e. e_source e \<noteq> wid) (g_websiteToMentionEdges g')
           = filter (\<lambda>e. e_source e \<noteq> wid) (g_websiteToMentionEdges g)"
proof -
  obtain ws n0 nk ne tk te nm nme where
    parts: "mergeParts env data g ws n0 nk ne tk te nm nme"
    using mergePageData_parts by blast
  note ms = mergePartsD(4) [OF parts, folded wid_def g'_def]
    and mes = mergePartsD(6) [OF parts, folded wid_def g'_def]
    and nm = mergePartsD(11) [OF parts, folded wid_def g'_def]
    and nme = mergePartsD(12) [OF parts, folded wid_def g'_def]
  have src: "\<forall>e \<in> set nme. e_source e = wid"
    using nme by (rule list_all2_left_all) simp
  have "list_all2 (\<lambda>e md. \<exists>m \<in> set nm. (e_source e = wid \<and> e_target e = m_id m) \<and>
           newMentionOk wid (filter (\<lambda>m. m_sourceWebsiteId m = wid) (g_mentions g)) m md)
          nme (filter validMention (d_mentions data))"
    using nme nm by (rule list_all2_compose)
  then have rel: "list_all2 (\<lambda>e md. \<exists>m \<in> set (g_mentions g'). m_id m = e_target e \<and>
              m_text m = md_text md \<and> m_context m = md_context md \<and> m_sourceWebsiteId m = wid)
          nme (filter validMention (d_mentions data))"
    by (rule list_all2_mono) (auto simp: ms newMentionOk_def)
  have "filter (\<lambda>e. e_source e = wid) nme = nme"
    using src by (rule filter_all)
  moreover have "filter (\<lambda>e. e_source e \<noteq> wid) nme = []"
    using src by (intro filter_none) simp
  ultimately show ?thesis using rel by (simp add: mes)
qed

text \<open>
  Claim C2, as the code has it. Let \<open>W\<close> be the id of the website a run merges. The edges
  of other websites stay as they are. Unless the block after the loops pushes its test
  edge, the keyword edges with source \<open>W\<close> after the run are, one for one and in order, the
  edges for the keywords of the page that have three characters or more, each to a keyword
  node with that text up to case; no edge that \<open>W\<close> had before is left. The same holds of the
  mention edges and the mentions the page gives with a text of two characters or more and a
  context. The test edge is pushed when the page has no keyword of three characters or more
  and the graph had no keyword node and no keyword edge but those of \<open>W\<close>: then the only
  keyword edge of the graph goes from the first website to the test keyword.
\<close>

theorem website_edges_replaced:
  "(\<not> fallbackFires (websiteIdOf env data g) data g \<longrightarrow>
      list_all2 (\<lambda>e t. \<exists>k \<in> set (g_keywords (mergePageData env data g)).
                   k_id k = e_target e \<and> kwKey k = toLowerCase t)
        (filter (\<lambda>e. e_source e = websiteIdOf env data g)
           (g_websiteToKeywordEdges (mergePageData env data g)))
        (filter (\<lambda>t. 3 \<le> length t) (d_keywords data)) \<and>
      filter (\<lambda>e. e_source e \<noteq> websiteIdOf env data g)
          (g_websiteToKeywordEdges (mergePageData env data g))
        = filter (\<lambda>e. e_source e \<noteq> websiteIdOf env data g) (g_websiteToKeywordEdges g)) \<and>
   (fallbackFires (websiteIdOf env data g) data g \<longrightarrow>
      (\<exists>e k. g_websiteToKeywordEdges (mergePageData env data g) = [e] \<and>
         g_keywords (mergePageData env data g) = [k] \<and>
         e_source e = w_id (hd (g_websites (mergePageData env data g))) \<and>
         e_target e = k_id k \<and> k_text k = ''Test Keyword'')) \<and>
   list_all2 (\<lambda>e md. \<exists>m \<in> set (g_mentions (mergePageData env data g)). m_id m = e_target e \<and>
        m_text m = md_text md \<and> m_context m = md_context md \<and>
        m_sourceWebsiteId m = websiteIdOf env data g)
     (filter (\<lambda>e. e_source e = websiteIdOf env data g)
        (g_websiteToMentionEdges (mergePageData env data g)))
     (filter validMention (d_mentions data)) \<and>
   filter (\<lambda>e. e_source e \<noteq> websiteIdOf env data g)
       (g_websiteToMentionEdges (mergePageData env data g))
     = filter (\<lambda>e. e_source e \<noteq> websiteIdOf env data g) (g_websiteToMentionEdges g)"
  using keyword_edges_of_merge [of env data g] mention_edges_of_merge [of env data g]
  by blast

text \<open>
  Against claim C2 as stated: the first page merged into the empty graph has no keyword
  and no mention, and afterwards its website has an outgoing keyword edge, to the test
  keyword.
\<close>

theorem edge_without_keyword:
  "d_keywords (page ''u0'' ''t'' [] []) = [] \<and> d_mentions (page ''u0'' ''t'' [] []) = [] \<and>
   websiteIdOf (envAt 100) (page ''u0'' ''t'' [] []) emptyGraphData = ''website-100-r'' \<and>
   g_websiteToKeywordEdges (mergePageData (envAt 100) (page ''u0'' ''t'' [] []) emptyGraphData)
     = [\<lparr>e_id = ''edge-test-103'', e_source = ''website-100-r'',
          e_target = ''keyword-test-102''\<rparr>]"
  by code_simp

text \<open>
  The theorem at a website merged with the keywords \<^verbatim>\<open>alpha\<close> and \<^verbatim>\<open>beta\<close> and then
  with \<^verbatim>\<open>gamma\<close>: one outgoing keyword edge is left, to the node of \<^verbatim>\<open>gamma\<close>.
\<close>

theorem website_edges_replaced_witness:
  "\<exists>e. filter (\<lambda>e. e_source e = ''website-100-r'')
          (g_websiteToKeywordEdges (mergePageData (envAt 200) (page ''u0'' ''t'' [''gamma''] [])
             (mergePageData (envAt 100) (page ''u0'' ''t'' [''alpha'', ''beta''] []) emptyGraphData)))
        = [e]
     \<and> (\<exists>k \<in> set (g_keywords (mergePageData (envAt 200) (page ''u0'' ''t'' [''gamma''] [])
             (mergePageData (envAt 100) (page ''u0'' ''t'' [''alpha'', ''beta''] []) emptyGraphData))).
          k_id k = e_target e \<and> kwKey k = ''gamma'')"
proof -
  let ?g = "mergePageData (envAt 100) (page ''u0'' ''t'' [''alpha'', ''beta''] []) emptyGraphData"
  let ?d = "page ''u0'' ''t'' [''gamma''] []"
  have w: "websiteIdOf (envAt 200) ?d ?g = ''website-100-r''"
    by code_simp
  have nf: "\<not> fallbackFires ''website-100-r'' ?d ?g"
    by code_simp
  have v: "filter (\<lambda>t. 3 \<le> length t) (d_keywords ?d) = [''gamma'']"
    by (simp add: page_def)
  have low: "toLowerCase ''gamma'' = ''gamma''"
    by code_simp
  from website_edges_replaced [of "envAt 200" ?d ?g, THEN conjunct1] nf
  have "list_all2 (\<lambda>e t. \<exists>k \<in> set (g_keywords (mergePageData (envAt 200) ?d ?g)).
                   k_id k = e_target e \<and> kwKey k = toLowerCase t)
        (filter (\<lambda>e. e_source e = ''website-100-r'')
           (g_websiteToKeywordEdges (mergePageData (envAt 200) ?d ?g)))
        [''gamma'']"
    unfolding w v by blast
  then show ?thesis
    by (auto simp: list_all2_Cons2 low)
qed

subsection \<open>The ends of the edges\<close>

text \<open>
  What does hold of the ends of the edges in every graph the extension can hold: the
  source of an edge is the id of a website node, and the target of a mention edge is the id
  of a mention node of the source website.
\<close>

lemma upsertWebsite_ids:
  assumes "upsertWebsite env data ws = (wid, ws', n)"
  shows "w_id ` set ws \<subseteq> w_id ` set ws'" and "wid \<in> w_id ` set ws'" and "ws' \<noteq> []"
proof -
  note p = upsertWebsite_props [OF assms]
  show "w_id ` set ws \<subseteq> w_id ` set ws'"
  proof
    fix i assume "i \<in> w_id ` set ws"
    then obtain j where j: "j < length ws" "i = w_id (ws ! j)"
      by (auto simp: in_set_conv_nth)
    with p(1,2) have "j < length ws'" "w_id (ws' ! j) = i" by auto
    then show "i \<in> w_id ` set ws'"
      by (metis imageI nth_mem)
  qed
  from p(3) show "wid \<in> w_id ` set ws'" by auto
  from p(3) show "ws' \<noteq> []" by auto
qed

lemma merge_keeps_edge_ends:
  assumes src: "\<forall>e \<in> set (g_websiteToKeywordEdges g) \<union> set (g_websiteToMentionEdges g).
                  e_source e \<in> w_id ` set (g_websites g)"
    and tgt: "\<forall>e \<in> set (g_websiteToMentionEdges g).
                \<exists>m \<in> set (g_mentions g). m_id m = e_target e \<and> m_sourceWebsiteId m = e_source e"
  shows "(\<forall>e \<in> set (g_websiteToKeywordEdges (mergePageData env data g))
               \<union> set (g_websiteToMentionEdges (mergePageData env data g)).
            e_source e \<in> w_id ` set (g_websites (mergePageData env data g))) \<and>
         (\<forall>e \<in> set (g_websiteToMentionEdges (mergePageData env data g)).
            \<exists>m \<in> set (g_mentions (mergePageData env data g)).
              m_id m = e_target e \<and> m_sourceWebsiteId m = e_source e)"
proof -
  let ?wid = "websiteIdOf env data g"
  obtain ws n0 nk ne tk te nm nme where
    parts: "mergeParts env data g ws n0 nk ne tk te nm nme"
    using mergePageData_parts by blast
  note u = mergePartsD(1) [OF parts] and w = mergePartsD(2) [OF parts]
    and ms = mergePartsD(4) [OF parts] and kes = mergePartsD(5) [OF parts]
    and mes = mergePartsD(6) [OF parts] and ne = mergePartsD(9) [OF parts]
    and f = mergePartsD(10) [OF parts] and nm = mergePartsD(11) [OF parts]
    and nme = mergePartsD(12) [OF parts]
  note ids = upsertWebsite_ids [OF u]
  have hd: "w_id (hd ws) \<in> w_id ` set ws"
    using ids(3) by simp
  have a: "\<forall>e \<in> set ne. e_source e \<in> w_id ` set ws"
    using list_all2_left_all [OF ne, of "\<lambda>e. e_source e = ?wid"] ids(2) by auto
  have b: "\<forall>e \<in> set te. e_source e \<in> w_id ` set ws"
    using f hd by (auto split: if_splits)
  have c: "\<forall>e \<in> set nme. e_source e \<in> w_id ` set ws"
    using list_all2_left_all [OF nme, of "\<lambda>e. e_source e = ?wid"] ids(2) by auto
  have old: "\<forall>e \<in> set (g_websiteToKeywordEdges g) \<union> set (g_websiteToMentionEdges g).
               e_source e \<in> w_id ` set ws"
    using src ids(1) by blast
  have sources: "\<forall>e \<in> set (g_websiteToKeywordEdges (mergePageData env data g))
               \<union> set (g_websiteToMentionEdges (mergePageData env data g)).
            e_source e \<in> w_id ` set (g_websites (mergePageData env data g))"
    unfolding w kes mes using a b c old by auto
  have new: "\<forall>e \<in> set nme. \<exists>m \<in> set nm. m_id m = e_target e \<and> m_sourceWebsiteId m = e_source e"
  proof -
    have "list_all2 (\<lambda>e md. \<exists>m \<in> set nm. (e_source e = ?wid \<and> e_target e = m_id m) \<and>
             newMentionOk ?wid (filter (\<lambda>m. m_sourceWebsiteId m = ?wid) (g_mentions g)) m md)
            nme (filter validMention (d_mentions data))"
      using nme nm by (rule list_all2_compose)
    then show ?thesis
      by (rule list_all2_left_all) (auto simp: newMentionOk_def)
  qed
  have kept: "\<exists>m \<in> set (filter (\<lambda>m. m_sourceWebsiteId m \<noteq> ?wid) (g_mentions g)).
                m_id m = e_target e \<and> m_sourceWebsiteId m = e_source e"
    if "e \<in> set (filter (\<lambda>e. e_source e \<noteq> ?wid) (g_websiteToMentionEdges g))" for e
  proof -
    from that have e: "e \<in> set (g_websiteToMentionEdges g)" "e_source e \<noteq> ?wid" by auto
    with tgt obtain m where "m \<in> set (g_mentions g)" "m_id m = e_target e"
      "m_sourceWebsiteId m = e_source e" by blast
    with e(2) show ?thesis by (intro bexI [of _ m]) auto
  qed
  have targets: "\<forall>e \<in> set (g_websiteToMentionEdges (mergePageData env data g)).
            \<exists>m \<in> set (g_mentions (mergePageData env data g)).
              m_id m = e_target e \<and> m_sourceWebsiteId m = e_source e"
    unfolding ms mes using new kept by (auto simp del: set_filter)
  from sources targets show ?thesis by blast
qed

lemma map_w_id_position_update:
  "map w_id (map (\<lambda>w. if P w then w\<lparr>w_lastPosition := q\<rparr> else w) ws) = map w_id ws"
  by (induction ws) auto

lemma mention_ends_position_update:
  "(\<exists>m \<in> set (map (\<lambda>m. if P m then m\<lparr>m_position := q\<rparr> else m) ms).
      m_id m = a \<and> m_sourceWebsiteId m = b)
   \<longleftrightarrow> (\<exists>m \<in> set ms. m_id m = a \<and> m_sourceWebsiteId m = b)"
  by (induction ms) auto

lemma reachable_edge_ends:
  "reachable g \<Longrightarrow>
   (\<forall>e \<in> set (g_websiteToKeywordEdges g) \<union> set (g_websiteToMentionEdges g).
      e_source e \<in> w_id ` set (g_websites g)) \<and>
   (\<forall>e \<in> set (g_websiteToMentionEdges g).
      \<exists>m \<in> set (g_mentions g). m_id m = e_target e \<and> m_sourceWebsiteId m = e_source e)"
proof (induction rule: reachable.induct)
  case init
  show ?case by (simp add: emptyGraphData_def)
next
  case (merge g env data)
  then show ?case using merge_keeps_edge_ends by blast
next
  case (websitePosition g i p)
  have "map w_id (map (\<lambda>website. if w_id website = i then website\<lparr>w_lastPosition := Some p\<rparr>
                                   else website) (g_websites g)) = map w_id (g_websites g)"
    by (rule map_w_id_position_update)
  then have "w_id ` set (map (\<lambda>website. if w_id website = i then website\<lparr>w_lastPosition := Some p\<rparr>
                                   else website) (g_websites g)) = w_id ` set (g_websites g)"
    by (metis list.set_map)
  with websitePosition show ?case by (simp add: updateWebsitePosition_def del: set_map)
next
  case (keywordPosition g i p)
  then show ?case by (simp add: updateKeywordPosition_def)
next
  case (mentionPosition g i p)
  then show ?case
    by (simp add: updateMentionPosition_def mention_ends_position_update del: set_map)
next
  case (reset g)
  show ?case by (simp add: resetGraph_def)
qed

text \<open>
  Claim C4 fails on the code. Three merges into the empty graph: a page without keywords,
  whose website gets the test keyword; a second page that lists \<^verbatim>\<open>test keyword\<close> and is
  linked to that node; the first page again. The third run removes the test keyword, which
  names the first website in \<^verbatim>\<open>sourceWebsiteId\<close>, and the edges whose source is the first
  website; the edge of the second website stays, and its target is the id of no keyword
  node.
\<close>

theorem dangling_edge_after_remerge:
  "g_keywords
     (mergePageData (envAt 300) (page ''u0'' ''t0'' [] [])
        (mergePageData (envAt 200) (page ''u1'' ''t1'' [''test keyword''] [])
           (mergePageData (envAt 100) (page ''u0'' ''t0'' [] []) emptyGraphData))) = [] \<and>
   g_websiteToKeywordEdges
     (mergePageData (envAt 300) (page ''u0'' ''t0'' [] [])
        (mergePageData (envAt 200) (page ''u1'' ''t1'' [''test keyword''] [])
           (mergePageData (envAt 100) (page ''u0'' ''t0'' [] []) emptyGraphData)))
     = [\<lparr>e_id = ''edge-202-r'', e_source = ''website-200-r'',
          e_target = ''keyword-test-102''\<rparr>]"
  by code_simp

subsection \<open>Pages without url or title\<close>

lemma upsertWebsite_websites:
  "fst (snd (upsertWebsite env data ws)) =
     (case findIndex (\<lambda>website. w_url website = d_url data) ws of
        None \<Rightarrow>
          ws @ [\<lparr>w_id = genId env ''website-'' 0, w_url = d_url data, w_title = d_title data,
                  w_favicon = d_favicon data, w_visitedAt = now env 1,
                  w_lastPosition = None\<rparr>]
      | Some i \<Rightarrow>
          ws[i := (ws ! i)\<lparr>w_title := d_title data, w_favicon := d_favicon data,
                           w_visitedAt := now env 0\<rparr>])"
  by (simp add: upsertWebsite_def Let_def split: option.splits)

lemma merged_websites:
  "g_websites (mergePageData env data g) = fst (snd (upsertWebsite env data (g_websites g)))"
proof -
  obtain ws n0 nk ne tk te nm nme where
    parts: "mergeParts env data g ws n0 nk ne tk te nm nme"
    using mergePageData_parts by blast
  show ?thesis
    by (simp add: mergePartsD(1) [OF parts] mergePartsD(2) [OF parts])
qed

text \<open>
  Claim C5, as the code has it. \<^verbatim>\<open>processPageData\<close> never tests \<^verbatim>\<open>url\<close> or \<^verbatim>\<open>title\<close>.
  A message without \<^verbatim>\<open>keywords\<close> or without \<^verbatim>\<open>mentions\<close> raises a \<^verbatim>\<open>TypeError\<close> that is
  caught and logged, and the store stays as it is. With both arrays there, the run is
  skipped, and the store stays as it is, exactly when no preferences or no API key are set
  or the classifier rejects the page. Otherwise the page is merged and the graph is
  written, whatever \<^verbatim>\<open>url\<close> and \<^verbatim>\<open>title\<close> are, absent included: when no stored website
  has the url of the message, a node with that url, that title and that favicon is
  appended to the website list, and else the first stored website with that url gets the
  title and the favicon of the message.
\<close>

theorem page_merged_whatever_url_and_title:
  "(p_keywords data = None \<or> p_mentions data = None \<longrightarrow>
      processPageData preferences geminiApiKey isContentRelevant env data stored
        = (Caught TypeError, stored)) \<and>
   (p_keywords data = Some kws \<and> p_mentions data = Some mds \<and>
    (preferences = [] \<or> geminiApiKey = []
       \<or> \<not> isContentRelevant (pageContent data kws mds)) \<longrightarrow>
      processPageData preferences geminiApiKey isContentRelevant env data stored
        = (Skipped, stored)) \<and>
   (p_keywords data = Some kws \<and> p_mentions data = Some mds \<and>
    preferences \<noteq> [] \<and> geminiApiKey \<noteq> []
       \<and> isContentRelevant (pageContent data kws mds) \<longrightarrow>
      (\<exists>g'. processPageData preferences geminiApiKey isContentRelevant env data stored
               = (Saved, Some g') \<and>
         g' = mergePageData env
                \<lparr>d_url = p_url data, d_title = p_title data, d_favicon = p_favicon data,
                 d_keywords = kws, d_mentions = mds,
                 d_mainContent = p_mainContent data\<rparr>
                (case stored of None \<Rightarrow> emptyGraphData | Some graphData \<Rightarrow> graphData) \<and>
         g_websites g' =
           (case findIndex (\<lambda>website. w_url website = p_url data)
                   (g_websites (case stored of None \<Rightarrow> emptyGraphData
                                | Some graphData \<Rightarrow> graphData)) of
              None \<Rightarrow>
                g_websites (case stored of None \<Rightarrow> emptyGraphData
                            | Some graphData \<Rightarrow> graphData)
                @ [\<lparr>w_id = genId env ''website-'' 0, w_url = p_url data,
                     w_title = p_title data, w_favicon = p_favicon data,
                     w_visitedAt = now env 1, w_lastPosition = None\<rparr>]
            | Some i \<Rightarrow>
                (g_websites (case stored of None \<Rightarrow> emptyGraphData
                             | Some graphData \<Rightarrow> graphData))
                  [i := (g_websites (case stored of None \<Rightarrow> emptyGraphData
                                     | Some graphData \<Rightarrow> graphData) ! i)
                          \<lparr>w_title := p_title data, w_favicon := p_favicon data,
                           w_visitedAt := now env 0\<rparr>])))"
proof (intro conjI impI)
  assume "p_keywords data = None \<or> p_mentions data = None"
  then show "processPageData preferences geminiApiKey isContentRelevant env data stored
        = (Caught TypeError, stored)"
    by (auto simp: processPageData_def split: option.splits)
next
  assume "p_keywords data = Some kws \<and> p_mentions data = Some mds \<and>
    (preferences = [] \<or> geminiApiKey = []
       \<or> \<not> isContentRelevant (pageContent data kws mds))"
  then show "processPageData preferences geminiApiKey isContentRelevant env data stored
        = (Skipped, stored)"
    by (auto simp: processPageData_def)
next
  let ?g = "case stored of None \<Rightarrow> emptyGraphData | Some graphData \<Rightarrow> graphData"
  let ?d = "\<lparr>d_url = p_url data, d_title = p_title data, d_favicon = p_favicon data,
             d_keywords = kws, d_mentions = mds,
             d_mainContent = p_mainContent data\<rparr>"
  assume gate: "p_keywords data = Some kws \<and> p_mentions data = Some mds \<and>
    preferences \<noteq> [] \<and> geminiApiKey \<noteq> []
       \<and> isContentRelevant (pageContent data kws mds)"
  then have run: "processPageData preferences geminiApiKey isContentRelevant env data stored
               = (Saved, Some (mergePageData env ?d ?g))"
    by (simp add: processPageData_def)
  have sites: "g_websites (mergePageData env ?d ?g) =
           (case findIndex (\<lambda>website. w_url website = p_url data) (g_websites ?g) of
              None \<Rightarrow>
                g_websites ?g
                @ [\<lparr>w_id = genId env ''website-'' 0, w_url = p_url data,
                     w_title = p_title data, w_favicon = p_favicon data,
                     w_visitedAt = now env 1, w_lastPosition = None\<rparr>]
            | Some i \<Rightarrow>
                (g_websites ?g)
                  [i := (g_websites ?g ! i)
                          \<lparr>w_title := p_title data, w_favicon := p_favicon data,
                           w_visitedAt := now env 0\<rparr>])"
    by (simp add: merged_websites upsertWebsite_websites split: option.splits)
  from run sites
  show "\<exists>g'. processPageData preferences geminiApiKey isContentRelevant env data stored
               = (Saved, Some g') \<and>
         g' = mergePageData env ?d ?g \<and>
         g_websites g' =
           (case findIndex (\<lambda>website. w_url website = p_url data) (g_websites ?g) of
              None \<Rightarrow>
                g_websites ?g
                @ [\<lparr>w_id = genId env ''website-'' 0, w_url = p_url data,
                     w_title = p_title data, w_favicon = p_favicon data,
                     w_visitedAt = now env 1, w_lastPosition = None\<rparr>]
            | Some i \<Rightarrow>
                (g_websites ?g)
                  [i := (g_websites ?g ! i)
                          \<lparr>w_title := p_title data, w_favicon := p_favicon data,
                           w_visitedAt := now env 0\<rparr>])"
    by blast
qed

text \<open>
  Against claim C5 as stated: a message with keywords and mentions but without url and
  without title, for a page the classifier accepts, is merged into the empty graph like
  any other. The store then holds a website node without url and title, with the test
  keyword and its edge.
\<close>

theorem page_without_url_and_title_is_merged:
  "processPageData ''rust'' ''key'' acceptAll (envAt 100) (message None None (Some []) (Some []))
     (Some emptyGraphData)
   = (Saved,
      Some \<lparr>g_websites =
              [\<lparr>w_id = ''website-100-r'', w_url = None, w_title = None, w_favicon = Some [],
                 w_visitedAt = 101, w_lastPosition = None\<rparr>],
            g_keywords =
              [\<lparr>k_id = ''keyword-test-102'', k_text = ''Test Keyword'',
                 k_sourceWebsiteId = Some ''website-100-r'', k_position = None\<rparr>],
            g_mentions = [],
            g_websiteToKeywordEdges =
              [\<lparr>e_id = ''edge-test-103'', e_source = ''website-100-r'',
                 e_target = ''keyword-test-102''\<rparr>],
            g_websiteToMentionEdges = []\<rparr>)"
  by code_simp

text \<open>
  The theorem at three runs on the empty graph: a message without \<^verbatim>\<open>keywords\<close>; a
  message with every field but no API key set; and the message without url and title of
  the example above.
\<close>

theorem page_merged_whatever_url_and_title_witness:
  "processPageData ''rust'' ''key'' acceptAll (envAt 100)
     (message (Some ''u0'') (Some ''t'') None (Some [])) (Some emptyGraphData)
     = (Caught TypeError, Some emptyGraphData) \<and>
   processPageData ''rust'' [] acceptAll (envAt 100)
     (message (Some ''u0'') (Some ''t'') (Some []) (Some [])) (Some emptyGraphData)
     = (Skipped, Some emptyGraphData) \<and>
   (\<exists>g'. processPageData ''rust'' ''key'' acceptAll (envAt 100)
            (message None None (Some []) (Some [])) (Some emptyGraphData)
            = (Saved, Some g') \<and>
      g_websites g' =
        [\<lparr>w_id = ''website-100-r'', w_url = None, w_title = None, w_favicon = Some [],
           w_visitedAt = 101, w_lastPosition = None\<rparr>])"
proof -
  let ?m1 = "message (Some ''u0'') (Some ''t'') None (Some [])"
  let ?m2 = "message (Some ''u0'') (Some ''t'') (Some []) (Some [])"
  let ?m3 = "message None None (Some []) (Some [])"
  have f1: "p_keywords ?m1 = None"
    and f2: "p_keywords ?m2 = Some []" "p_mentions ?m2 = Some []"
    and f3: "p_keywords ?m3 = Some []" "p_mentions ?m3 = Some []"
      "p_url ?m3 = None" "p_title ?m3 = None" "p_favicon ?m3 = Some []"
    by (simp_all add: message_def)
  have id: "genId (envAt 100) ''website-'' 0 = ''website-100-r''"
    by code_simp
  have nw: "now (envAt 100) (Suc 0) = 101"
    by (simp add: envAt_def)
  have empty: "g_websites emptyGraphData = []"
    by (simp add: emptyGraphData_def)
  have a: "processPageData ''rust'' ''key'' acceptAll (envAt 100) ?m1 (Some emptyGraphData)
     = (Caught TypeError, Some emptyGraphData)"
    using page_merged_whatever_url_and_title
            [where data = "?m1" and kws = "[]" and mds = "[]"
               and preferences = "''rust''" and geminiApiKey = "''key''"
               and isContentRelevant = acceptAll and env = "envAt 100"
               and stored = "Some emptyGraphData"]
    by (simp add: f1)
  have b: "processPageData ''rust'' [] acceptAll (envAt 100) ?m2 (Some emptyGraphData)
     = (Skipped, Some emptyGraphData)"
    using page_merged_whatever_url_and_title
            [where data = "?m2" and kws = "[]" and mds = "[]"
               and preferences = "''rust''" and geminiApiKey = "[]"
               and isContentRelevant = acceptAll and env = "envAt 100"
               and stored = "Some emptyGraphData"]
    by (simp add: f2)
  have c: "\<exists>g'. processPageData ''rust'' ''key'' acceptAll (envAt 100) ?m3 (Some emptyGraphData)
            = (Saved, Some g') \<and>
      g_websites g' =
        [\<lparr>w_id = ''website-100-r'', w_url = None, w_title = None, w_favicon = Some [],
           w_visitedAt = 101, w_lastPosition = None\<rparr>]"
    using page_merged_whatever_url_and_title
            [where data = "?m3" and kws = "[]" and mds = "[]"
               and preferences = "''rust''" and geminiApiKey = "''key''"
               and isContentRelevant = acceptAll and env = "envAt 100"
               and stored = "Some emptyGraphData"]
    by (simp add: f3 id nw empty acceptAll_def)
  from a b c show ?thesis by blast
qed

subsection \<open>Mentions\<close>

text \<open>
  Claim C6, as the code has it. A run removes every mention node of the website it merges
  and builds a new node for every mention of the page whose text has two characters or
  more and whose context is not empty, in order and duplicates included. The new node has
  the text and the context the page gives and the id of the website; its id is made anew
  from the clock and the random source, each node two reads after the one before, and is
  not taken from a mention that was there. The position of the new node is that of the
  first removed mention of the website with the same text up to case, and absent when
  there is none. The mentions of other websites stay as they are.
\<close>

theorem mentions_rebuilt:
  "\<exists>nm n. g_mentions (mergePageData env data g)
           = filter (\<lambda>m. m_sourceWebsiteId m \<noteq> websiteIdOf env data g) (g_mentions g) @ nm \<and>
         list_all2
           (newMentionOk (websiteIdOf env data g)
              (filter (\<lambda>m. m_sourceWebsiteId m = websiteIdOf env data g) (g_mentions g)))
           nm (filter validMention (d_mentions data)) \<and>
         map m_id nm = map (\<lambda>j. genId env ''mention-'' (n + 2 * j)) [0..<length nm]"
proof -
  obtain ws n0 nk ne tk te nm nme where
    parts: "mergeParts env data g ws n0 nk ne tk te nm nme"
    using mergePageData_parts by blast
  note ms = mergePartsD(4) [OF parts] and ok = mergePartsD(11) [OF parts]
  obtain n where
    ids: "map m_id (g_mentions (mergePageData env data g)) =
      map m_id (filter (\<lambda>m. m_sourceWebsiteId m \<noteq> websiteIdOf env data g) (g_mentions g)) @
      map (\<lambda>j. genId env ''mention-'' (n + 2 * j))
        [0..<length (filter validMention (d_mentions data))]"
    using merged_mention_ids by blast
  have len: "length nm = length (filter validMention (d_mentions data))"
    using ok by (rule list_all2_lengthD)
  have "map m_id nm = map (\<lambda>j. genId env ''mention-'' (n + 2 * j)) [0..<length nm]"
    using ids unfolding ms len by simp
  with ms ok show ?thesis by blast
qed

text \<open>
  Against claim C6 as stated: a website has the mention \<^verbatim>\<open>Rust\<close>, dragged to
  \<open>(10, 20)\<close>. Its page is merged again with the mentions \<^verbatim>\<open>rust\<close> and \<^verbatim>\<open>x\<close>, both with
  a context. The node of \<^verbatim>\<open>Rust\<close> is not looked up and kept: a node with another id, the
  new text and the new context takes its place, at \<open>(10, 20)\<close>. The mention \<^verbatim>\<open>x\<close>, one
  character long, gets no node.
\<close>

theorem mention_node_replaced:
  "g_mentions (updateMentionPosition ''mention-104-r'' \<lparr>pos_x = 10, pos_y = 20\<rparr>
      (mergePageData (envAt 100)
         (page ''u0'' ''t'' [''react''] [\<lparr>md_text = ''Rust'', md_context = ''c1''\<rparr>])
         emptyGraphData))
     = [\<lparr>m_id = ''mention-104-r'', m_text = ''Rust'', m_sourceWebsiteId = ''website-100-r'',
          m_context = ''c1'', m_position = Some \<lparr>pos_x = 10, pos_y = 20\<rparr>\<rparr>] \<and>
   g_mentions (mergePageData (envAt 200)
      (page ''u0'' ''t'' [''react'']
         [\<lparr>md_text = ''rust'', md_context = ''c2''\<rparr>, \<lparr>md_text = ''x'', md_context = ''c''\<rparr>])
      (updateMentionPosition ''mention-104-r'' \<lparr>pos_x = 10, pos_y = 20\<rparr>
         (mergePageData (envAt 100)
            (page ''u0'' ''t'' [''react''] [\<lparr>md_text = ''Rust'', md_context = ''c1''\<rparr>])
            emptyGraphData)))
     = [\<lparr>m_id = ''mention-202-r'', m_text = ''rust'', m_sourceWebsiteId = ''website-100-r'',
          m_context = ''c2'', m_position = Some \<lparr>pos_x = 10, pos_y = 20\<rparr>\<rparr>]"
  by code_simp

text \<open>
  The theorem at the second merge of that example: one new node, with the text, the
  context and the saved position, under an id made from a read of the clock of that run.
\<close>

theorem mentions_rebuilt_witness:
  "\<exists>m n. g_mentions (mergePageData (envAt 200)
            (page ''u0'' ''t'' [''react'']
               [\<lparr>md_text = ''rust'', md_context = ''c2''\<rparr>, \<lparr>md_text = ''x'', md_context = ''c''\<rparr>])
            (updateMentionPosition ''mention-104-r'' \<lparr>pos_x = 10, pos_y = 20\<rparr>
               (mergePageData (envAt 100)
                  (page ''u0'' ''t'' [''react''] [\<lparr>md_text = ''Rust'', md_context = ''c1''\<rparr>])
                  emptyGraphData))) = [m] \<and>
        m_text m = ''rust'' \<and> m_context m = ''c2'' \<and>
        m_sourceWebsiteId m = ''website-100-r'' \<and>
        m_position m = Some \<lparr>pos_x = 10, pos_y = 20\<rparr> \<and>
        m_id m = genId (envAt 200) ''mention-'' n"
proof -
  let ?g = "updateMentionPosition ''mention-104-r'' \<lparr>pos_x = 10, pos_y = 20\<rparr>
               (mergePageData (envAt 100)
                  (page ''u0'' ''t'' [''react''] [\<lparr>md_text = ''Rust'', md_context = ''c1''\<rparr>])
                  emptyGraphData)"
  let ?d = "page ''u0'' ''t'' [''react'']
               [\<lparr>md_text = ''rust'', md_context = ''c2''\<rparr>, \<lparr>md_text = ''x'', md_context = ''c''\<rparr>]"
  have w: "websiteIdOf (envAt 200) ?d ?g = ''website-100-r''"
    by code_simp
  have old: "g_mentions ?g
     = [\<lparr>m_id = ''mention-104-r'', m_text = ''Rust'', m_sourceWebsiteId = ''website-100-r'',
          m_context = ''c1'', m_position = Some \<lparr>pos_x = 10, pos_y = 20\<rparr>\<rparr>]"
    by code_simp
  have v: "filter validMention (d_mentions ?d) = [\<lparr>md_text = ''rust'', md_context = ''c2''\<rparr>]"
    by (simp add: page_def validMention_def)
  have low: "toLowerCase ''Rust'' = toLowerCase ''rust''"
    by code_simp
  from mentions_rebuilt [of "envAt 200" ?d ?g]
  show ?thesis
    unfolding w old v by (auto simp: list_all2_Cons2 newMentionOk_def low)
qed

text \<open>
  The same with a text that has an accented letter: the mention \<^verbatim>\<open>CAF\<close> with the capital
  E with acute accent (code unit 201), dragged to \<open>(10, 20)\<close>, comes again as \<^verbatim>\<open>Caf\<close>
  with the small one (233); the new node has the saved position.
\<close>

lemma accented_mention_keeps_position:
  "map (\<lambda>m. (m_id m, m_text m, m_position m))
     (g_mentions (mergePageData (envAt 200)
        (page ''u0'' ''t'' [''react'']
           [\<lparr>md_text = [CHR ''C'', CHR ''a'', CHR ''f'', CHR 0xE9], md_context = ''c2''\<rparr>])
        (updateMentionPosition ''mention-104-r'' \<lparr>pos_x = 10, pos_y = 20\<rparr>
           (mergePageData (envAt 100)
              (page ''u0'' ''t'' [''react'']
                 [\<lparr>md_text = [CHR ''C'', CHR ''A'', CHR ''F'', CHR 0xC9], md_context = ''c1''\<rparr>])
              emptyGraphData))))
     = [(''mention-202-r'', [CHR ''C'', CHR ''a'', CHR ''f'', CHR 0xE9],
         Some \<lparr>pos_x = 10, pos_y = 20\<rparr>)]"
  by code_simp

subsection \<open>Search\<close>

text \<open>
  The search: \<open>includesStr\<close> is the substring test. When the search returns, a website is
  among the results exactly when a matching mention or keyword names it in
  \<^verbatim>\<open>sourceWebsiteId\<close>, or its title holds the query up to case, or it has a title and its
  url holds the query up to case. The search throws when it has to read the title or the
  url of a website that has none.
\<close>

lemma startsWith_iff: "startsWith s q \<longleftrightarrow> (\<exists>r. s = q @ r)"
  by (induction s q rule: startsWith.induct) auto

lemma includesStr_iff: "includesStr s q \<longleftrightarrow> (\<exists>p r. s = p @ q @ r)"
proof (induction s)
  case Nil
  show ?case by auto
next
  case (Cons c cs)
  show ?case
  proof
    assume "includesStr (c # cs) q"
    then consider "startsWith (c # cs) q" | "includesStr cs q" by auto
    then show "\<exists>p r. c # cs = p @ q @ r"
    proof cases
      case 1
      then obtain r where "c # cs = q @ r" by (auto simp: startsWith_iff)
      then have "c # cs = [] @ q @ r" by simp
      then show ?thesis by blast
    next
      case 2
      with Cons obtain p r where "cs = p @ q @ r" by auto
      then have "c # cs = (c # p) @ q @ r" by simp
      then show ?thesis by blast
    qed
  next
    assume "\<exists>p r. c # cs = p @ q @ r"
    then obtain p r where pr: "c # cs = p @ q @ r" by blast
    show "includesStr (c # cs) q"
    proof (cases p)
      case Nil
      with pr have "startsWith (c # cs) q" by (auto simp: startsWith_iff)
      then show ?thesis by simp
    next
      case (Cons a p')
      with pr have "cs = p' @ q @ r" by simp
      with Cons.IH have "includesStr cs q" by blast
      then show ?thesis by simp
    qed
  qed
qed

lemma filterE_Inr:
  "filterE P xs = Inr r \<Longrightarrow> r = filter (\<lambda>x. P x = Inr True) xs \<and> (\<forall>x \<in> set xs. \<exists>b. P x = Inr b)"
proof (induction xs arbitrary: r)
  case Nil
  then show ?case by simp
next
  case (Cons a as)
  from Cons.prems obtain b rest where b: "P a = Inr b" and rest: "filterE P as = Inr rest"
    and r: "r = (if b then a # rest else rest)"
    by (auto split: sum.splits)
  from Cons.IH [OF rest] b r show ?case by auto
qed

lemma filterE_total:
  "\<forall>x \<in> set xs. \<exists>b. P x = Inr b \<Longrightarrow> \<exists>r. filterE P xs = Inr r"
  by (induction xs) auto

lemma websiteMatches_True:
  "websiteMatches ids q w = Inr True \<longleftrightarrow>
     Some (w_id w) \<in> ids
     \<or> (\<exists>t. w_title w = Some t \<and> includesStr (toLowerCase t) q)
     \<or> (\<exists>t u. w_title w = Some t \<and> w_url w = Some u \<and> includesStr (toLowerCase u) q)"
  by (auto simp: websiteMatches_def lowerIncludes_def split: option.splits)

lemma search_websites:
  assumes "searchByKeyword q g = Inr r"
  shows "w \<in> set (sr_websites r) \<longleftrightarrow>
     w \<in> set (g_websites g) \<and>
     ((\<exists>t. w_title w = Some t \<and> includesStr (toLowerCase t) (toLowerCase q))
      \<or> (\<exists>t u. w_title w = Some t \<and> w_url w = Some u
            \<and> includesStr (toLowerCase u) (toLowerCase q))
      \<or> (\<exists>m \<in> set (g_mentions g). m_sourceWebsiteId m = w_id w \<and>
            (includesStr (toLowerCase (m_text m)) (toLowerCase q)
             \<or> includesStr (toLowerCase (m_context m)) (toLowerCase q)))
      \<or> (\<exists>k \<in> set (g_keywords g). k_sourceWebsiteId k = Some (w_id w) \<and>
            includesStr (kwKey k) (toLowerCase q)))"
proof -
  let ?ids = "set (map k_sourceWebsiteId
                    (filter (\<lambda>k. includesStr (toLowerCase (k_text k)) (toLowerCase q))
                       (g_keywords g))
                  @ map (\<lambda>m. Some (m_sourceWebsiteId m))
                      (filter (\<lambda>m. includesStr (toLowerCase (m_text m)) (toLowerCase q)
                                  \<or> includesStr (toLowerCase (m_context m)) (toLowerCase q))
                         (g_mentions g)))"
  from assms obtain ws where
    f: "filterE (websiteMatches ?ids (toLowerCase q)) (g_websites g) = Inr ws"
    and r: "sr_websites r = ws"
    by (auto simp: searchByKeyword_def Let_def split: sum.splits)
  have ws: "ws = filter (\<lambda>x. websiteMatches ?ids (toLowerCase q) x = Inr True) (g_websites g)"
    using filterE_Inr [OF f] by simp
  have ids: "Some (w_id w) \<in> ?ids \<longleftrightarrow>
      (\<exists>m \<in> set (g_mentions g). m_sourceWebsiteId m = w_id w \<and>
            (includesStr (toLowerCase (m_text m)) (toLowerCase q)
             \<or> includesStr (toLowerCase (m_context m)) (toLowerCase q)))
      \<or> (\<exists>k \<in> set (g_keywords g). k_sourceWebsiteId k = Some (w_id w) \<and>
            includesStr (kwKey k) (toLowerCase q))"
    by (auto simp: image_iff)
  show ?thesis
    unfolding r ws using ids by (auto simp: websiteMatches_True simp del: set_append set_map)
qed

text \<open>
  Claim C9 fails on the code for keywords. A page with the title \<^verbatim>\<open>Docs\<close> and the keyword
  \<^verbatim>\<open>shadcn\<close> is merged into the empty graph. The search for \<^verbatim>\<open>shad\<close> finds the keyword
  node and no website: the search takes the websites of a keyword from
  \<^verbatim>\<open>sourceWebsiteId\<close>, which the keyword loop of \<^verbatim>\<open>processPageData\<close> does not set, and does
  not follow the edge from the website to the keyword.
\<close>

theorem search_misses_website_of_keyword:
  "g_websiteToKeywordEdges
     (mergePageData (envAt 100) (page ''https://ui.example/'' ''Docs'' [''shadcn''] [])
        emptyGraphData)
     = [\<lparr>e_id = ''edge-103-r'', e_source = ''website-100-r'', e_target = ''keyword-102-r''\<rparr>] \<and>
   searchByKeyword ''shad''
     (mergePageData (envAt 100) (page ''https://ui.example/'' ''Docs'' [''shadcn''] [])
        emptyGraphData)
     = Inr \<lparr>sr_websites = [],
            sr_keywords = [\<lparr>k_id = ''keyword-102-r'', k_text = ''shadcn'',
                             k_sourceWebsiteId = None, k_position = None\<rparr>],
            sr_mentions = []\<rparr>"
  by code_simp

section \<open>Properties of the layout hook\<close>

subsection \<open>Initial positions\<close>









subsection \<open>The layout cache\<close>






end
